theory Spec2Isabelle
  imports Complex_Main "HOL-Library.Log_Nat"
begin

section \<open>Palette loading of handtex/gui\_utils.py\<close>

text \<open>
  The development embeds \<^verbatim>\<open>clamp_8bit\<close>, \<^verbatim>\<open>apply_color_effect\<close> and
  \<^verbatim>\<open>load_color_palette\<close> of \<^verbatim>\<open>src/handtex/gui_utils.py\<close>.
  Exceptions are values of the type \<open>error\<close>, the mutable palette and the loop variables
  are passed explicitly, and the two \<^verbatim>\<open>for\<close> loops are recursive functions over the
  list of lines. Text is ASCII: a \<open>char\<close> is one code point below 128.
\<close>

subsection \<open>Errors\<close>

text \<open>
  \<open>CouldNotOpenTheme\<close> is the \<^verbatim>\<open>ValueError\<close> raised explicitly in the \<^verbatim>\<open>else\<close>
  branch of the file test, with the theme name of its message; \<open>ValueError\<close> and
  \<open>OverflowError\<close> are the exceptions of the built-in conversions and of the calls
  into the toolkit.
\<close>

datatype error = CouldNotOpenTheme string | ValueError | OverflowError

subsection \<open>Python floats\<close>

text \<open>
  A Python \<^verbatim>\<open>float\<close> is an IEEE-754 binary64 number. A finite one is represented by
  its exact rational value; the sign of a zero is dropped, since no operation used here
  (\<^verbatim>\<open>+\<close>, \<^verbatim>\<open>-\<close>, \<^verbatim>\<open>*\<close>, \<^verbatim>\<open>int()\<close>) can observe it. Every arithmetic
  operation computes the exact result and rounds it to the nearest binary64 number, ties to
  even, with gradual underflow below \<open>2 powi (-1022)\<close> and overflow to an infinity.
\<close>

datatype double = Fin rat | PInf | NInf | NaN

definition round_half_even :: "rat \<Rightarrow> int" where
  "round_half_even x =
     (let f = \<lfloor>x\<rfloor>; d = x - of_int f
      in if d < 1 / 2 then f else if 1 / 2 < d then f + 1 else if even f then f else f + 1)"

text \<open>\<open>ilog2 x\<close> is the binary exponent of a positive \<open>x\<close>: \<open>2 powi ilog2 x \<le> x < 2 powi (ilog2 x + 1)\<close>.\<close>

definition ilog2 :: "rat \<Rightarrow> int" where
  "ilog2 x = (if 1 \<le> x then bitlen \<lfloor>x\<rfloor> - 1 else - bitlen (\<lceil>1 / x\<rceil> - 1))"

text \<open>
  Rounding to binary64: the spacing of the representable numbers around \<open>x\<close> is
  \<open>pow2 q\<close>, that is \<open>2 powi q\<close>, with 53 significant bits and the smallest spacing \<open>2 powi (-1074)\<close>.
  The rounded value overflows when its binary exponent exceeds 1023, that is, when its
  magnitude reaches \<open>2 ^ 1024\<close>.
\<close>

definition pow2 :: "int \<Rightarrow> rat" where
  "pow2 q = 2 powi q"

definition round_double :: "rat \<Rightarrow> double" where
  "round_double x =
     (if x = 0 then Fin 0
      else let q = max (ilog2 \<bar>x\<bar> - 52) (- 1074);
               r = of_int (round_half_even (x / pow2 q)) * pow2 q
           in if 1024 \<le> ilog2 \<bar>r\<bar> then (if 0 < x then PInf else NInf) else Fin r)"

fun fneg :: "double \<Rightarrow> double" where
  "fneg (Fin x) = Fin (- x)"
| "fneg PInf = NInf"
| "fneg NInf = PInf"
| "fneg NaN = NaN"

fun fadd :: "double \<Rightarrow> double \<Rightarrow> double" where
  "fadd (Fin x) (Fin y) = round_double (x + y)"
| "fadd NaN _ = NaN"
| "fadd _ NaN = NaN"
| "fadd PInf NInf = NaN"
| "fadd NInf PInf = NaN"
| "fadd PInf _ = PInf"
| "fadd NInf _ = NInf"
| "fadd _ PInf = PInf"
| "fadd _ NInf = NInf"

definition fsub :: "double \<Rightarrow> double \<Rightarrow> double" where
  "fsub x y = fadd x (fneg y)"

text \<open>The sign of a product with an infinity; \<open>0 * inf\<close> is a NaN.\<close>

definition inf_times :: "bool \<Rightarrow> rat \<Rightarrow> double" where
  "inf_times positive y =
     (if y = 0 then NaN else if (0 < y) = positive then PInf else NInf)"

fun fmul :: "double \<Rightarrow> double \<Rightarrow> double" where
  "fmul (Fin x) (Fin y) = round_double (x * y)"
| "fmul NaN _ = NaN"
| "fmul _ NaN = NaN"
| "fmul PInf (Fin y) = inf_times True y"
| "fmul NInf (Fin y) = inf_times False y"
| "fmul (Fin x) PInf = inf_times True x"
| "fmul (Fin x) NInf = inf_times False x"
| "fmul PInf PInf = PInf"
| "fmul NInf NInf = PInf"
| "fmul PInf NInf = NInf"
| "fmul NInf PInf = NInf"

text \<open>
  The conversion of a Python \<^verbatim>\<open>int\<close> operand of a float operation: correctly rounded,
  \<^verbatim>\<open>OverflowError\<close> when the integer is too large for a float.
\<close>

definition float_of_int :: "int \<Rightarrow> error + double" where
  "float_of_int n =
     (case round_double (of_int n) of Fin x \<Rightarrow> Inr (Fin x) | _ \<Rightarrow> Inl OverflowError)"

text \<open>
  \<^verbatim>\<open>int(x)\<close> of a float: truncation toward zero; \<^verbatim>\<open>ValueError\<close> on a NaN,
  \<^verbatim>\<open>OverflowError\<close> on an infinity.
\<close>

definition int_of_float :: "double \<Rightarrow> error + int" where
  "int_of_float x =
     (case x of
        Fin q \<Rightarrow> Inr (if 0 \<le> q then \<lfloor>q\<rfloor> else \<lceil>q\<rceil>)
      | NaN \<Rightarrow> Inl ValueError
      | _ \<Rightarrow> Inl OverflowError)"

subsection \<open>Colours and palettes\<close>

text \<open>
  The toolkit's colour type \<^verbatim>\<open>QColor\<close>, as far as the code uses it. A colour is
  either invalid or an RGB triple; an invalid colour reads as 0 on every channel.
  \<^verbatim>\<open>QColor(r, g, b)\<close> and \<^verbatim>\<open>setRgb(r, g, b)\<close> validate their arguments: the
  result is the triple when every channel is within 0 to 255 and the invalid colour
  otherwise. The Python binding passes each argument as a C \<^verbatim>\<open>int\<close> and raises
  \<^verbatim>\<open>OverflowError\<close> for an integer that does not fit in 32 bits.
\<close>

datatype qcolor = Invalid | Rgb int int int

fun red :: "qcolor \<Rightarrow> int" where
  "red Invalid = 0"
| "red (Rgb r g b) = r"

fun green :: "qcolor \<Rightarrow> int" where
  "green Invalid = 0"
| "green (Rgb r g b) = g"

fun blue :: "qcolor \<Rightarrow> int" where
  "blue Invalid = 0"
| "blue (Rgb r g b) = b"

fun isValid :: "qcolor \<Rightarrow> bool" where
  "isValid Invalid = False"
| "isValid (Rgb r g b) = True"

definition c_int :: "int \<Rightarrow> bool" where
  "c_int v = (- 2147483648 \<le> v \<and> v \<le> 2147483647)"

definition rgb_color :: "int \<Rightarrow> int \<Rightarrow> int \<Rightarrow> qcolor" where
  "rgb_color r g b =
     (if 0 \<le> r \<and> r \<le> 255 \<and> 0 \<le> g \<and> g \<le> 255 \<and> 0 \<le> b \<and> b \<le> 255
      then Rgb r g b else Invalid)"

definition QColor :: "int \<Rightarrow> int \<Rightarrow> int \<Rightarrow> error + qcolor" where
  "QColor r g b =
     (if c_int r \<and> c_int g \<and> c_int b then Inr (rgb_color r g b) else Inl OverflowError)"

text \<open>\<^verbatim>\<open>c.setRgb(r, g, b)\<close>: the new value of the colour \<open>c\<close>.\<close>

definition setRgb :: "int \<Rightarrow> int \<Rightarrow> int \<Rightarrow> error + qcolor" where
  "setRgb r g b = QColor r g b"

text \<open>The palette roles that the code names, and the three colour groups it writes.\<close>

datatype color_role =
    Button | ButtonText | BrightText
  | Base | AlternateBase | Text | Link | LinkVisited | PlaceholderText
  | Highlight | HighlightedText
  | ToolTipBase | ToolTipText
  | Window | WindowText
  | Light | Dark | Midlight | Mid | Shadow

datatype color_group = Normal | Inactive | Disabled

text \<open>
  The toolkit's \<^verbatim>\<open>QPalette\<close>: a colour for every group and role. The palette that
  \<^verbatim>\<open>QPalette()\<close> creates holds the default colours of the toolkit, a valid colour
  for every role; it is the parameter \<open>default_palette\<close> of the load. \<open>setColor\<close> with
  a group writes one entry, \<open>setColorAll\<close> (the call without a group) writes the role in
  every group, and \<open>color\<close> reads the role in the \<open>Normal\<close> group. A colour is stored as
  it is given, valid or not.
\<close>

type_synonym qpalette = "color_group \<times> color_role \<Rightarrow> qcolor"

definition setColor :: "color_group \<Rightarrow> color_role \<Rightarrow> qcolor \<Rightarrow> qpalette \<Rightarrow> qpalette" where
  "setColor g r c p = p((g, r) := c)"

definition setColorAll :: "color_role \<Rightarrow> qcolor \<Rightarrow> qpalette \<Rightarrow> qpalette" where
  "setColorAll r c p = setColor Disabled r c (setColor Inactive r c (setColor Normal r c p))"

definition color :: "qpalette \<Rightarrow> color_role \<Rightarrow> qcolor" where
  "color p r = p (Normal, r)"

subsection \<open>The colour effect\<close>

definition clamp_8bit :: "int \<Rightarrow> int" where
  "clamp_8bit v = max 0 (min v 255)"

text \<open>
  One channel of \<^verbatim>\<open>apply_color_effect\<close>:
  \<^verbatim>\<open>clamp_8bit(int(s * (1 - contrast_amount) + e * contrast_amount))\<close>, with the integer
  operands converted to floats in the order in which Python evaluates the expression.
\<close>

definition effect_channel :: "int \<Rightarrow> int \<Rightarrow> double \<Rightarrow> error + int" where
  "effect_channel s e contrast_amount =
     (case float_of_int 1 of Inl err \<Rightarrow> Inl err | Inr one \<Rightarrow>
      case float_of_int s of Inl err \<Rightarrow> Inl err | Inr sf \<Rightarrow>
      case float_of_int e of Inl err \<Rightarrow> Inl err | Inr ef \<Rightarrow>
      case int_of_float (fadd (fmul sf (fsub one contrast_amount)) (fmul ef contrast_amount)) of
        Inl err \<Rightarrow> Inl err
      | Inr v \<Rightarrow> Inr (clamp_8bit v))"

definition apply_color_effect :: "qcolor \<Rightarrow> qcolor \<Rightarrow> double \<Rightarrow> error + qcolor" where
  "apply_color_effect source effect_base contrast_amount =
     (case effect_channel (red source) (red effect_base) contrast_amount of
        Inl err \<Rightarrow> Inl err | Inr r \<Rightarrow>
      case effect_channel (green source) (green effect_base) contrast_amount of
        Inl err \<Rightarrow> Inl err | Inr g \<Rightarrow>
      case effect_channel (blue source) (blue effect_base) contrast_amount of
        Inl err \<Rightarrow> Inl err | Inr b \<Rightarrow> QColor r g b)"

subsection \<open>Strings and the built-in conversions\<close>

text \<open>
  \<^verbatim>\<open>str.strip()\<close> removes the characters for which \<^verbatim>\<open>str.isspace()\<close> holds; below
  128 these are the code points 9 to 13, 28 to 31 and 32. \<^verbatim>\<open>int()\<close> and \<^verbatim>\<open>float()\<close>
  skip only the C whitespace around their argument: 9 to 13 and 32.
\<close>

definition is_space :: "char \<Rightarrow> bool" where
  "is_space c = (c \<in> set [CHR 0x09, CHR 0x0A, CHR 0x0B, CHR 0x0C, CHR 0x0D,
                            CHR 0x1C, CHR 0x1D, CHR 0x1E, CHR 0x1F, CHR 0x20])"

definition is_c_space :: "char \<Rightarrow> bool" where
  "is_c_space c = (c \<in> set [CHR 0x09, CHR 0x0A, CHR 0x0B, CHR 0x0C, CHR 0x0D, CHR 0x20])"

definition strip :: "string \<Rightarrow> string" where
  "strip s = rev (dropWhile is_space (rev (dropWhile is_space s)))"

definition c_strip :: "string \<Rightarrow> string" where
  "c_strip s = rev (dropWhile is_c_space (rev (dropWhile is_c_space s)))"

text \<open>\<^verbatim>\<open>s.split(c)\<close> for a one-character separator: never an empty list.\<close>

fun split_on :: "char \<Rightarrow> string \<Rightarrow> string list" where
  "split_on c [] = [[]]"
| "split_on c (x # xs) =
     (if x = c then [] # split_on c xs
      else (case split_on c xs of w # ws \<Rightarrow> (x # w) # ws | [] \<Rightarrow> [[x]]))"

text \<open>
  \<^verbatim>\<open>key, value = map(str.strip, line.split("=", 1))\<close> for a line that contains
  \<^verbatim>\<open>=\<close>: the text before the first \<^verbatim>\<open>=\<close> and the whole text after it, both stripped.
\<close>

definition split_key_value :: "string \<Rightarrow> string \<times> string" where
  "split_key_value line =
     (strip (takeWhile (\<lambda>c. c \<noteq> CHR ''='') line),
      strip (drop 1 (dropWhile (\<lambda>c. c \<noteq> CHR ''='') line)))"

definition is_digit :: "char \<Rightarrow> bool" where
  "is_digit c = (c \<in> set ''0123456789'')"

definition digit_value :: "char \<Rightarrow> int" where
  "digit_value c = of_char c - 48"

definition decimal :: "string \<Rightarrow> int" where
  "decimal ds = foldl (\<lambda>n c. 10 * n + digit_value c) 0 ds"

text \<open>
  Underscores in a numeric literal: each one must stand between two digits. The first
  argument is the previous character (initially the NUL character).
\<close>

fun remove_underscores :: "char \<Rightarrow> string \<Rightarrow> string option" where
  "remove_underscores prev [] = (if prev = CHR ''_'' then None else Some [])"
| "remove_underscores prev (c # cs) =
     (if c = CHR ''_'' then (if is_digit prev then remove_underscores c cs else None)
      else if prev = CHR ''_'' \<and> \<not> is_digit c then None
      else map_option (Cons c) (remove_underscores c cs))"

definition sign_split :: "string \<Rightarrow> bool \<times> string" where
  "sign_split s =
     (case s of
        [] \<Rightarrow> (False, [])
      | c # cs \<Rightarrow> if c = CHR ''-'' then (True, cs) else if c = CHR ''+'' then (False, cs)
                 else (False, s))"

text \<open>
  \<^verbatim>\<open>int(s)\<close> of a string, base 10: optional whitespace, an optional sign, digits
  with single underscores between them. CPython refuses a literal of more than 4300
  digits (the default of \<^verbatim>\<open>sys.set_int_max_str_digits\<close>).
\<close>

definition py_int :: "string \<Rightarrow> error + int" where
  "py_int s =
     (let (negative, body) = sign_split (c_strip s)
      in case remove_underscores (CHR 0x00) body of
           None \<Rightarrow> Inl ValueError
         | Some ds \<Rightarrow>
             if ds = [] \<or> \<not> list_all is_digit ds \<or> 4300 < length ds then Inl ValueError
             else Inr (if negative then - decimal ds else decimal ds))"

text \<open>The exponent part of a float literal: nothing, or \<^verbatim>\<open>e\<close> with a signed integer.\<close>

definition exponent :: "string \<Rightarrow> int option" where
  "exponent r =
     (case r of
        [] \<Rightarrow> Some 0
      | c # cs \<Rightarrow>
          if c = CHR ''e'' \<or> c = CHR ''E''
          then (let (negative, ds) = sign_split cs
                in if ds \<noteq> [] \<and> list_all is_digit ds
                   then Some (if negative then - decimal ds else decimal ds)
                   else None)
          else None)"

text \<open>
  An unsigned decimal float literal: digits, an optional point with digits, at least one
  digit in all, and an optional exponent. The result is its exact value.
\<close>

definition decimal_number :: "string \<Rightarrow> rat option" where
  "decimal_number s =
     (let ip = takeWhile is_digit s;
          r1 = dropWhile is_digit s;
          (fp, r2) = (case r1 of
                        [] \<Rightarrow> ([], [])
                      | c # cs \<Rightarrow> if c = CHR ''.''
                                 then (takeWhile is_digit cs, dropWhile is_digit cs)
                                 else ([], r1))
      in if ip = [] \<and> fp = [] then None
         else case exponent r2 of
                None \<Rightarrow> None
              | Some ex \<Rightarrow> Some (of_int (decimal (ip @ fp)) * 10 powi (ex - int (length fp))))"

definition lower :: "char \<Rightarrow> char" where
  "lower c = (case map_of (zip ''ABCDEFGHIJKLMNOPQRSTUVWXYZ'' ''abcdefghijklmnopqrstuvwxyz'') c of
                None \<Rightarrow> c | Some l \<Rightarrow> l)"

text \<open>
  \<^verbatim>\<open>float(s)\<close> of a string: optional whitespace, underscores between digits, an
  optional sign, then \<^verbatim>\<open>inf\<close>, \<^verbatim>\<open>infinity\<close> or \<^verbatim>\<open>nan\<close> in any case, or a
  decimal literal, which is rounded correctly.
\<close>

definition py_float :: "string \<Rightarrow> error + double" where
  "py_float s =
     (case remove_underscores (CHR 0x00) (c_strip s) of
        None \<Rightarrow> Inl ValueError
      | Some u \<Rightarrow>
          let (negative, body) = sign_split u; low = map lower body
          in if low = ''inf'' \<or> low = ''infinity'' then Inr (if negative then NInf else PInf)
             else if low = ''nan'' then Inr NaN
             else case decimal_number body of
                    None \<Rightarrow> Inl ValueError
                  | Some q \<Rightarrow> Inr (round_double (if negative then - q else q)))"

text \<open>
  \<^verbatim>\<open>r, g, b = map(int, value.split(","))\<close>: every failure, of a conversion or of the
  unpacking of a list that has not exactly three items, is a \<^verbatim>\<open>ValueError\<close>.
\<close>

definition parse_rgb :: "string \<Rightarrow> error + (int \<times> int \<times> int)" where
  "parse_rgb value =
     (case split_on CHR '','' value of
        [x, y, z] \<Rightarrow>
          (case py_int x of Inl err \<Rightarrow> Inl err | Inr r \<Rightarrow>
           case py_int y of Inl err \<Rightarrow> Inl err | Inr g \<Rightarrow>
           case py_int z of Inl err \<Rightarrow> Inl err | Inr b \<Rightarrow> Inr (r, g, b))
      | _ \<Rightarrow> Inl ValueError)"

subsection \<open>Loading a palette\<close>

text \<open>The mapping between KDE colour keys and palette roles, as the nested dictionary.\<close>

definition section_role_mapping :: "(string \<times> (string \<times> color_role) list) list" where
  "section_role_mapping =
     [(''Colors:Button'',
         [(''BackgroundNormal'', Button),
          (''ForegroundNormal'', ButtonText),
          (''ForegroundActive'', BrightText)]),
      (''Colors:View'',
         [(''BackgroundNormal'', Base),
          (''BackgroundAlternate'', AlternateBase),
          (''ForegroundNormal'', Text),
          (''ForegroundLink'', Link),
          (''ForegroundVisited'', LinkVisited),
          (''ForegroundInactive'', PlaceholderText)]),
      (''Colors:Selection'',
         [(''BackgroundNormal'', Highlight),
          (''ForegroundNormal'', HighlightedText)]),
      (''Colors:Tooltip'',
         [(''BackgroundNormal'', ToolTipBase),
          (''ForegroundNormal'', ToolTipText)]),
      (''Colors:Window'',
         [(''BackgroundNormal'', Window),
          (''ForegroundNormal'', WindowText)])]"

text \<open>
  \<^verbatim>\<open>section_role_mapping.get(section, {}).get(key, None)\<close>; the section is
  \<^verbatim>\<open>None\<close> before the first header.
\<close>

definition qt_color_role :: "string option \<Rightarrow> string \<Rightarrow> color_role option" where
  "qt_color_role section key =
     (case section of
        None \<Rightarrow> None
      | Some name \<Rightarrow>
          (case map_of section_role_mapping name of
             None \<Rightarrow> None
           | Some role_mapping \<Rightarrow> map_of role_mapping key))"

definition startswith_bracket :: "string \<Rightarrow> bool" where
  "startswith_bracket line = (case line of [] \<Rightarrow> False | c # cs \<Rightarrow> c = CHR ''['')"

definition endswith_bracket :: "string \<Rightarrow> bool" where
  "endswith_bracket line = (line \<noteq> [] \<and> last line = CHR '']'')"

text \<open>
  The first loop. The state is the pair of \<^verbatim>\<open>disabled_color\<close> and
  \<^verbatim>\<open>disabled_contrast_amount\<close>; \<open>disabled_key_value\<close> is the part of the loop body
  after the comment ``now we're in the disabled section'', for a stripped line that
  contains \<^verbatim>\<open>=\<close>.
\<close>

definition disabled_key_value :: "string \<Rightarrow> qcolor \<times> double \<Rightarrow> error + (qcolor \<times> double)" where
  "disabled_key_value line st =
     (let (key, value) = split_key_value line
      in if key = ''Color''
         then (case parse_rgb value of
                 Inl err \<Rightarrow> Inl err
               | Inr (r, g, b) \<Rightarrow>
                   (case setRgb r g b of
                      Inl err \<Rightarrow> Inl err
                    | Inr disabled_color \<Rightarrow> Inr (disabled_color, snd st)))
         else if key = ''ContrastAmount''
         then (case py_float value of
                 Inl err \<Rightarrow> Inl err
               | Inr amount \<Rightarrow> Inr (fst st, amount))
         else Inr st)"

fun disabled_pass ::
  "string list \<Rightarrow> bool \<Rightarrow> qcolor \<times> double \<Rightarrow> error + (qcolor \<times> double)" where
  "disabled_pass [] in_disabled_section st = Inr st"
| "disabled_pass (l # ls) in_disabled_section st =
     (let line = strip l
      in if line = ''[ColorEffects:Disabled]'' then disabled_pass ls True st
         else if \<not> in_disabled_section then disabled_pass ls in_disabled_section st
         else if startswith_bracket line then Inr st
         else if CHR ''='' \<notin> set line then disabled_pass ls in_disabled_section st
         else (case disabled_key_value line st of
                 Inl err \<Rightarrow> Inl err
               | Inr st' \<Rightarrow> disabled_pass ls in_disabled_section st'))"

text \<open>
  The second loop. The state is the palette together with the variable
  \<^verbatim>\<open>disabled_color\<close>, which the loop body reads as the effect base and then
  assigns the computed disabled colour to. The three calls \<^verbatim>\<open>Qg.QColor(r, g, b)\<close>
  of the body give the same colour \<open>c\<close>, or the first of them raises.
\<close>

definition role_key_value ::
  "string option \<Rightarrow> double \<Rightarrow> string \<Rightarrow> qpalette \<times> qcolor \<Rightarrow> error + (qpalette \<times> qcolor)" where
  "role_key_value section disabled_contrast_amount line st =
     (let (key, value) = split_key_value line
      in case qt_color_role section key of
           None \<Rightarrow> Inr st
         | Some role \<Rightarrow>
             (case parse_rgb value of
                Inl err \<Rightarrow> Inl err
              | Inr (r, g, b) \<Rightarrow>
                  (case QColor r g b of
                     Inl err \<Rightarrow> Inl err
                   | Inr c \<Rightarrow>
                       (case apply_color_effect c (snd st) disabled_contrast_amount of
                          Inl err \<Rightarrow> Inl err
                        | Inr disabled_color \<Rightarrow>
                            Inr (setColor Disabled role disabled_color
                                   (setColor Inactive role c
                                      (setColor Normal role c (fst st))),
                                 disabled_color)))))"

fun role_pass ::
  "string list \<Rightarrow> string option \<Rightarrow> double \<Rightarrow> qpalette \<times> qcolor \<Rightarrow> error + (qpalette \<times> qcolor)" where
  "role_pass [] section disabled_contrast_amount st = Inr st"
| "role_pass (l # ls) section disabled_contrast_amount st =
     (let line = strip l
      in if startswith_bracket line \<and> endswith_bracket line
         then role_pass ls (Some (butlast (tl line))) disabled_contrast_amount st
         else if CHR ''='' \<in> set line
         then (case role_key_value section disabled_contrast_amount line st of
                 Inl err \<Rightarrow> Inl err
               | Inr st' \<Rightarrow> role_pass ls section disabled_contrast_amount st')
         else role_pass ls section disabled_contrast_amount st)"

text \<open>
  The fallback calculations. \<^verbatim>\<open>QColor.lighter\<close> and \<^verbatim>\<open>QColor.darker\<close> belong to
  the toolkit and are parameters. \<open>average\<close> is the colour that \<^verbatim>\<open>Qg.QColor\<close>
  builds from the floor averages of the channels of two colours.
\<close>

definition average :: "qcolor \<Rightarrow> qcolor \<Rightarrow> qcolor" where
  "average x y =
     rgb_color ((red x + red y) div 2) ((green x + green y) div 2) ((blue x + blue y) div 2)"

definition fallback ::
  "(qcolor \<Rightarrow> int \<Rightarrow> qcolor) \<Rightarrow> (qcolor \<Rightarrow> int \<Rightarrow> qcolor) \<Rightarrow> qpalette \<Rightarrow> qpalette" where
  "fallback lighter darker p0 =
     (let p1 = (if \<not> isValid (color p0 Light)
                then setColorAll Light (lighter (color p0 Button) 150) p0 else p0);
          p2 = (if \<not> isValid (color p1 Dark)
                then setColorAll Dark (darker (color p1 Window) 150) p1 else p1);
          p3 = (if \<not> isValid (color p2 Midlight)
                then setColorAll Midlight (average (color p2 Light) (color p2 Button)) p2
                else p2);
          p4 = (if \<not> isValid (color p3 Mid)
                then setColorAll Mid (average (color p3 Dark) (color p3 Button)) p3
                else p3)
      in if \<not> isValid (color p4 Shadow) then setColorAll Shadow (rgb_color 0 0 0) p4 else p4)"

text \<open>
  The parse of the content of an opened theme file: both loops over
  \<^verbatim>\<open>content.split("\n")\<close>, from the default effect (gray, amount 0.0) and the
  palette that \<^verbatim>\<open>QPalette()\<close> has created.
\<close>

definition parse_content :: "qpalette \<Rightarrow> string \<Rightarrow> error + qpalette" where
  "parse_content default_palette content =
     (let lines = split_on (CHR 0x0A) content
      in case disabled_pass lines False (Rgb 128 128 128, Fin 0) of
           Inl err \<Rightarrow> Inl err
         | Inr (disabled_color, disabled_contrast_amount) \<Rightarrow>
             (case role_pass lines None disabled_contrast_amount
                     (default_palette, disabled_color) of
                Inl err \<Rightarrow> Inl err
              | Inr st \<Rightarrow> Inr (fst st)))"

text \<open>
  \<^verbatim>\<open>load_color_palette\<close>. The resource lookup and the file are the parameter
  \<open>themes\<close>, which maps a theme name to the content of its file when the file can be
  opened for reading.
\<close>

definition load_color_palette ::
  "(qcolor \<Rightarrow> int \<Rightarrow> qcolor) \<Rightarrow> (qcolor \<Rightarrow> int \<Rightarrow> qcolor) \<Rightarrow> qpalette \<Rightarrow>
     (string \<Rightarrow> string option) \<Rightarrow> string \<Rightarrow> error + qpalette" where
  "load_color_palette lighter darker default_palette themes theme =
     (case themes theme of
        None \<Rightarrow> Inl (CouldNotOpenTheme theme)
      | Some content \<Rightarrow>
          (case parse_content default_palette content of
             Inl err \<Rightarrow> Inl err
           | Inr palette \<Rightarrow> Inr (fallback lighter darker palette)))"

subsection \<open>Definitions used to state the properties\<close>

text \<open>A channel, and a colour, within the 8-bit range.\<close>

definition channel_8bit :: "int \<Rightarrow> bool" where
  "channel_8bit v = (0 \<le> v \<and> v \<le> 255)"

fun rgb_8bit :: "qcolor \<Rightarrow> bool" where
  "rgb_8bit Invalid = False"
| "rgb_8bit (Rgb r g b) = (channel_8bit r \<and> channel_8bit g \<and> channel_8bit b)"

text \<open>
  The blend of the specification (section 4.1), written from its words: for each of the
  three channels independently, \<open>clamp8\<close> of the integer truncation toward zero of
  \<open>source_channel * (1 - amount) + effectBase_channel * amount\<close>, with
  \<open>clamp8(x) = max(0, min(x, 255))\<close>. The arithmetic is that of floats; a sum that is
  not a number or is infinite has no integer truncation, which is an error.
\<close>

definition clamp8 :: "int \<Rightarrow> int" where
  "clamp8 x = max 0 (min x 255)"

definition truncate_toward_zero :: "rat \<Rightarrow> int" where
  "truncate_toward_zero x = (if x < 0 then - \<lfloor>- x\<rfloor> else \<lfloor>x\<rfloor>)"

definition blend_channel_spec :: "int \<Rightarrow> int \<Rightarrow> double \<Rightarrow> error + int" where
  "blend_channel_spec source_channel effectBase_channel amount =
     (case fadd (fmul (Fin (of_int source_channel)) (fsub (Fin 1) amount))
                (fmul (Fin (of_int effectBase_channel)) amount) of
        Fin x \<Rightarrow> Inr (clamp8 (truncate_toward_zero x))
      | NaN \<Rightarrow> Inl ValueError
      | _ \<Rightarrow> Inl OverflowError)"

definition blend_spec :: "qcolor \<Rightarrow> qcolor \<Rightarrow> double \<Rightarrow> error + qcolor" where
  "blend_spec source effectBase amount =
     (case blend_channel_spec (red source) (red effectBase) amount of
        Inl err \<Rightarrow> Inl err | Inr r \<Rightarrow>
      case blend_channel_spec (green source) (green effectBase) amount of
        Inl err \<Rightarrow> Inl err | Inr g \<Rightarrow>
      case blend_channel_spec (blue source) (blue effectBase) amount of
        Inl err \<Rightarrow> Inl err | Inr b \<Rightarrow> Inr (Rgb r g b))"

text \<open>
  The state machine of the specification for the disabled-effect pass, written from its
  words: \<open>Outside\<close> to \<open>InDisabledSection\<close> on a line that equals the header,
  \<open>InDisabledSection\<close> back to \<open>Outside\<close> on any other header line, and the
  end of the input as the only terminal state.
\<close>

datatype section_state = Outside | InDisabledSection

fun disabled_effect_spec ::
  "string list \<Rightarrow> section_state \<Rightarrow> qcolor \<times> double \<Rightarrow> error + (qcolor \<times> double)" where
  "disabled_effect_spec [] state st = Inr st"
| "disabled_effect_spec (l # ls) state st =
     (let line = strip l
      in if line = ''[ColorEffects:Disabled]'' then disabled_effect_spec ls InDisabledSection st
         else if state = Outside then disabled_effect_spec ls Outside st
         else if startswith_bracket line then disabled_effect_spec ls Outside st
         else if CHR ''='' \<notin> set line then disabled_effect_spec ls InDisabledSection st
         else (case disabled_key_value line st of
                 Inl err \<Rightarrow> Inl err
               | Inr st' \<Rightarrow> disabled_effect_spec ls InDisabledSection st'))"

text \<open>
  A line that ends the disabled section in the first loop: it starts with a bracket and
  is not the header of the disabled section itself.
\<close>

definition closes_section :: "string \<Rightarrow> bool" where
  "closes_section line = (line \<noteq> ''[ColorEffects:Disabled]'' \<and> startswith_bracket line)"


text \<open>The colour of a role in the result of a load; \<open>None\<close> when the load has failed.\<close>

definition loaded_color :: "error + qpalette \<Rightarrow> color_group \<Rightarrow> color_role \<Rightarrow> qcolor option" where
  "loaded_color result g r =
     (case result of Inl err \<Rightarrow> None | Inr palette \<Rightarrow> Some (palette (g, r)))"

text \<open>
  The roles that the second loop assigns on the given lines, in the order of the lines:
  one for every key=value line whose key is recognized in the section of the line.
\<close>

fun assigned_roles :: "string list \<Rightarrow> string option \<Rightarrow> color_role list" where
  "assigned_roles [] section = []"
| "assigned_roles (l # ls) section =
     (let line = strip l
      in if startswith_bracket line \<and> endswith_bracket line
         then assigned_roles ls (Some (butlast (tl line)))
         else if CHR ''='' \<in> set line
         then (case qt_color_role section (fst (split_key_value line)) of
                 None \<Rightarrow> assigned_roles ls section
               | Some role \<Rightarrow> role # assigned_roles ls section)
         else assigned_roles ls section)"

text \<open>
  Stand-ins for the toolkit in concrete examples. For \<^verbatim>\<open>lighter\<close> and
  \<^verbatim>\<open>darker\<close>: each channel moves half of the way to 255, or to 0 (the simplified
  formula that section 4.1 of the specification mentions). For the palette that
  \<^verbatim>\<open>QPalette()\<close> creates: the same valid colour, (160,160,164), for every role.
\<close>

definition gray_palette :: qpalette where
  "gray_palette = (\<lambda>entry. Rgb 160 160 164)"

definition lighter_halfway :: "qcolor \<Rightarrow> int \<Rightarrow> qcolor" where
  "lighter_halfway c factor = average c (Rgb 255 255 255)"

definition darker_halfway :: "qcolor \<Rightarrow> int \<Rightarrow> qcolor" where
  "darker_halfway c factor = average c (Rgb 0 0 0)"

text \<open>
  The rounding computed on integers, for a fraction \<open>a / b\<close> with a positive
  denominator. It is proved equal to \<open>round_double\<close> below and only serves to evaluate
  it on concrete numbers.
\<close>

definition ilog2_quotient :: "int \<Rightarrow> int \<Rightarrow> int" where
  "ilog2_quotient a b =
     (let d = bitlen a - bitlen b
      in if (if 0 \<le> d then b * 2 ^ nat d \<le> a else b \<le> a * 2 ^ nat (- d)) then d else d - 1)"

definition round_half_even_quotient :: "int \<Rightarrow> int \<Rightarrow> int" where
  "round_half_even_quotient p m =
     (let f = p div m; r = p mod m
      in if 2 * r < m then f else if m < 2 * r then f + 1 else if even f then f else f + 1)"

definition round_quotient :: "int \<Rightarrow> int \<Rightarrow> double" where
  "round_quotient a b =
     (if a = 0 then Fin 0
      else let q = max (ilog2_quotient \<bar>a\<bar> b - 52) (- 1074);
               n = (if 0 \<le> q then round_half_even_quotient a (b * 2 ^ nat q)
                    else round_half_even_quotient (a * 2 ^ nat (- q)) b)
           in if n \<noteq> 0 \<and> 1024 < bitlen \<bar>n\<bar> + q then (if 0 < a then PInf else NInf)
              else Fin (if 0 \<le> q then of_int (n * 2 ^ nat q)
                        else of_int n / of_int (2 ^ nat (- q))))"

section \<open>Properties\<close>

subsection \<open>Rounding to binary64\<close>

text \<open>Powers of two are computed on integers.\<close>

lemma pow2_code [code]:
  "pow2 q = (if 0 \<le> q then of_int (2 ^ nat q) else 1 / of_int (2 ^ nat (- q)))"
  by (simp add: pow2_def power_int_def inverse_eq_divide power_one_over)

lemma two_powi_nonneg: "0 \<le> e \<Longrightarrow> (2::rat) powi e = 2 ^ nat e"
  by (simp add: power_int_def)

lemma two_powi_neg: "e \<le> 0 \<Longrightarrow> (2::rat) powi e = 1 / 2 ^ nat (- e)"
  by (cases "e = 0") (simp_all add: power_int_def inverse_eq_divide power_one_over)

lemma two_powi_pos [simp]: "0 < (2::rat) powi e"
  by (simp add: zero_less_power_int)

lemma ilog2_lower:
  assumes "0 < x" shows "2 powi ilog2 x \<le> x"
proof (cases "1 \<le> x")
  case True
  define n where "n = \<lfloor>x\<rfloor>"
  have n: "1 \<le> n" using True by (simp add: n_def le_floor_iff)
  have b: "1 \<le> bitlen n" using n by (simp add: bitlen_ge_iff_power)
  from bitlen_bounds [of n] n have "2 ^ nat (bitlen n - 1) \<le> n" by simp
  then have "rat_of_int (2 ^ nat (bitlen n - 1)) \<le> of_int n" by (simp only: of_int_le_iff)
  also have "\<dots> \<le> x" by (simp add: n_def)
  finally have "(2::rat) ^ nat (bitlen n - 1) \<le> x" by simp
  then show ?thesis using True b by (simp add: ilog2_def n_def two_powi_nonneg)
next
  case False
  define y where "y = 1 / x"
  define m where "m = \<lceil>y\<rceil> - 1"
  have y: "1 < y" using False assms by (simp add: y_def)
  then have "1 < \<lceil>y\<rceil>" by (simp add: less_ceiling_iff)
  then have m: "1 \<le> m" by (simp add: m_def)
  have "y \<le> of_int (m + 1)" by (simp add: m_def)
  also from bitlen_bounds [of m] m have "m + 1 \<le> 2 ^ nat (bitlen m)" by simp
  then have "rat_of_int (m + 1) \<le> of_int (2 ^ nat (bitlen m))" by (simp only: of_int_le_iff)
  finally have "y \<le> 2 ^ nat (bitlen m)" by simp
  then have "1 / 2 ^ nat (bitlen m) \<le> x"
    using assms by (simp add: y_def field_simps)
  moreover have "ilog2 x = - bitlen m" using False by (simp add: ilog2_def m_def y_def)
  ultimately show ?thesis using bitlen_nonneg [of m] by (simp add: two_powi_neg)
qed

lemma ilog2_upper:
  assumes "0 < x" shows "x < 2 powi (ilog2 x + 1)"
proof (cases "1 \<le> x")
  case True
  define n where "n = \<lfloor>x\<rfloor>"
  have n: "1 \<le> n" using True by (simp add: n_def le_floor_iff)
  have b: "1 \<le> bitlen n" using n by (simp add: bitlen_ge_iff_power)
  have "x < of_int (n + 1)" using floor_correct [of x] by (simp add: n_def)
  also from bitlen_bounds [of n] n have "n + 1 \<le> 2 ^ nat (bitlen n)" by simp
  then have "rat_of_int (n + 1) \<le> of_int (2 ^ nat (bitlen n))" by (simp only: of_int_le_iff)
  finally have "x < 2 ^ nat (bitlen n)" by simp
  then show ?thesis using True b by (simp add: ilog2_def n_def two_powi_nonneg)
next
  case False
  define y where "y = 1 / x"
  define m where "m = \<lceil>y\<rceil> - 1"
  have y: "1 < y" using False assms by (simp add: y_def)
  then have "1 < \<lceil>y\<rceil>" by (simp add: less_ceiling_iff)
  then have m: "1 \<le> m" by (simp add: m_def)
  have b: "1 \<le> bitlen m" using m by (simp add: bitlen_ge_iff_power)
  from bitlen_bounds [of m] m have "2 ^ nat (bitlen m - 1) \<le> m" by simp
  then have "rat_of_int (2 ^ nat (bitlen m - 1)) \<le> of_int m" by (simp only: of_int_le_iff)
  also have "of_int m < y" using ceiling_correct [of y] by (simp add: m_def)
  finally have "2 ^ nat (bitlen m - 1) < y" by simp
  then have "x < 1 / 2 ^ nat (bitlen m - 1)"
    using assms by (simp add: y_def field_simps)
  moreover have "ilog2 x = - bitlen m" using False by (simp add: ilog2_def m_def y_def)
  ultimately show ?thesis using b two_powi_neg [of "1 - bitlen m"] by (simp add: algebra_simps)
qed

lemma two_powi_mono: "a \<le> b \<Longrightarrow> (2::rat) powi a \<le> 2 powi b"
  by (rule power_int_increasing) simp_all

lemma two_powi_less_cancel: "(2::rat) powi a < 2 powi b \<Longrightarrow> a < b"
  using two_powi_mono [of b a] by (cases "a < b") auto

lemma ilog2_unique:
  assumes "2 powi e \<le> x" "x < 2 powi (e + 1)"
  shows "ilog2 x = e"
proof -
  have x: "0 < x" using assms(1) two_powi_pos [of e] by linarith
  have "2 powi e < (2::rat) powi (ilog2 x + 1)"
    using assms(1) ilog2_upper [OF x] by linarith
  then have "e < ilog2 x + 1" by (rule two_powi_less_cancel)
  moreover have "2 powi ilog2 x < (2::rat) powi (e + 1)"
    using assms(2) ilog2_lower [OF x] by linarith
  then have "ilog2 x < e + 1" by (rule two_powi_less_cancel)
  ultimately show ?thesis by simp
qed


lemma round_half_even_of_int: "round_half_even (of_int n) = n"
  by (simp add: round_half_even_def)

lemma round_half_even_error: "\<bar>of_int (round_half_even x) - x\<bar> \<le> 1 / 2"
proof -
  define d where "d = x - of_int \<lfloor>x\<rfloor>"
  have d: "0 \<le> d" "d < 1"
    using floor_correct [of x] by (simp_all add: d_def)
  have x: "x = of_int \<lfloor>x\<rfloor> + d" by (simp add: d_def)
  have "\<bar>rat_of_int (round_half_even x) - (of_int \<lfloor>x\<rfloor> + d)\<bar> \<le> 1 / 2"
    using d unfolding round_half_even_def Let_def d_def [symmetric]
    by (auto simp add: abs_if)
  with x show ?thesis by simp
qed

lemma ilog2_less:
  assumes "\<bar>r\<bar> < 2 powi k" and "0 < k" shows "ilog2 \<bar>r\<bar> < k"
proof (cases "r = 0")
  case True
  have "bitlen (- 1) = 0" by (simp add: bitlen_eq_zero_iff)
  then have "ilog2 0 = 0" by (simp add: ilog2_def)
  then show ?thesis using True assms(2) by simp
next
  case False
  then have "0 < \<bar>r\<bar>" by simp
  from ilog2_lower [OF this] assms have "(2::rat) powi ilog2 \<bar>r\<bar> < 2 powi k" by linarith
  then show ?thesis by (rule two_powi_less_cancel)
qed

lemma round_double_finite:
  assumes "x \<noteq> 0"
    and "\<bar>of_int (round_half_even (x / 2 powi max (ilog2 \<bar>x\<bar> - 52) (- 1074))) *
           (2::rat) powi max (ilog2 \<bar>x\<bar> - 52) (- 1074)\<bar> < 2 powi 1024"
  shows "round_double x =
    Fin (of_int (round_half_even (x / 2 powi max (ilog2 \<bar>x\<bar> - 52) (- 1074))) *
           2 powi max (ilog2 \<bar>x\<bar> - 52) (- 1074))"
  using assms(1) ilog2_less [OF assms(2)] by (simp add: round_double_def pow2_def Let_def)

lemma round_double_of_int:
  assumes "\<bar>n\<bar> < 2 ^ 53"
  shows "round_double (of_int n) = Fin (of_int n)"
proof (cases "n = 0")
  case True
  then show ?thesis by (simp add: round_double_def)
next
  case False
  define x where "x = rat_of_int n"
  define e where "e = ilog2 \<bar>x\<bar>"
  have x0: "x \<noteq> 0" "0 < \<bar>x\<bar>" using False by (simp_all add: x_def)
  have x1: "1 \<le> \<bar>x\<bar>"
  proof -
    have "1 \<le> \<bar>n\<bar>" using False by simp
    then have "rat_of_int 1 \<le> of_int \<bar>n\<bar>" by (simp only: of_int_le_iff)
    then show ?thesis by (simp add: x_def)
  qed
  have x2: "\<bar>x\<bar> < 2 powi 53"
  proof -
    have "rat_of_int \<bar>n\<bar> < of_int (2 ^ 53)" using assms by (simp only: of_int_less_iff)
    then show ?thesis by (simp add: x_def)
  qed
  have "(2::rat) powi 0 < 2 powi (e + 1)"
    using x1 ilog2_upper [OF x0(2)] by (simp add: e_def)
  then have e0: "0 \<le> e" using two_powi_less_cancel [of 0 "e + 1"] by simp
  have e1: "e \<le> 52" using ilog2_less [OF x2] by (simp add: e_def)
  have q: "max (e - 52) (- 1074) = e - 52" using e0 by simp
  have pq: "(2::rat) powi (e - 52) = 1 / 2 ^ nat (52 - e)"
    using e1 two_powi_neg [of "e - 52"] by simp
  have "x / 2 powi (e - 52) = of_int (n * 2 ^ nat (52 - e))"
    by (simp add: pq x_def)
  then have rhe: "round_half_even (x / 2 powi (e - 52)) = n * 2 ^ nat (52 - e)"
    by (simp only: round_half_even_of_int)
  have val: "of_int (n * 2 ^ nat (52 - e)) * (2::rat) powi (e - 52) = x"
    by (simp add: pq x_def)
  have "round_double x = Fin x"
    using round_double_finite [of x] x0(1) x2 q rhe val
    by (simp add: e_def [symmetric])
  then show ?thesis by (simp add: x_def)
qed

lemma round_double_error:
  assumes "\<bar>x\<bar> \<le> 1024"
  shows "\<exists>r. round_double x = Fin r \<and> \<bar>r - x\<bar> \<le> 1 / 2 ^ 43"
proof (cases "x = 0")
  case True
  then show ?thesis by (simp add: round_double_def)
next
  case False
  define e where "e = ilog2 \<bar>x\<bar>"
  define q where "q = max (e - 52) (- 1074)"
  define n where "n = round_half_even (x / 2 powi q)"
  define r where "r = rat_of_int n * 2 powi q"
  have "\<bar>x\<bar> < 2 powi 11" using assms by simp
  then have e: "e < 11" unfolding e_def by (rule ilog2_less) simp
  then have q: "q \<le> - 42" by (simp add: q_def)
  have "r - x = (of_int n - x / 2 powi q) * 2 powi q"
    by (simp add: r_def algebra_simps)
  then have "\<bar>r - x\<bar> = \<bar>of_int n - x / 2 powi q\<bar> * 2 powi q"
    by (simp add: abs_mult)
  also have "\<dots> \<le> (1 / 2) * 2 powi q"
    using round_half_even_error [of "x / 2 powi q"]
    by (intro mult_right_mono) (simp_all add: n_def)
  also have "\<dots> \<le> (1 / 2) * 2 powi (- 42)"
    using two_powi_mono [OF q] by simp
  finally have err: "\<bar>r - x\<bar> \<le> 1 / 2 ^ 43" by (simp add: power_int_minus)
  then have "\<bar>r\<bar> \<le> 1024 + 1 / 2 ^ 43" using assms by linarith
  also have "\<dots> < 2 powi 11" by simp
  also have "\<dots> \<le> 2 powi 1024" by (rule two_powi_mono) simp
  finally have "\<bar>r\<bar> < 2 powi 1024" .
  then have "round_double x = Fin r"
    unfolding r_def n_def q_def e_def
    by (rule round_double_finite [OF False])
  with err show ?thesis by blast
qed

text \<open>The rounding on integers is the rounding: a code equation for \<open>round_double\<close>.\<close>

lemma two_powi_diff_nat:
  "(2::rat) powi d * of_int b \<le> of_int a \<longleftrightarrow>
     (if 0 \<le> d then b * 2 ^ nat d \<le> a else b \<le> a * 2 ^ nat (- d))"
proof (cases "0 \<le> d")
  case True
  have "(2::rat) powi d * of_int b = of_int (b * 2 ^ nat d)"
    using True by (simp add: two_powi_nonneg)
  then show ?thesis using True by (simp only: of_int_le_iff) simp
next
  case False
  then have p: "(2::rat) powi d = 1 / 2 ^ nat (- d)" by (simp add: two_powi_neg)
  have "(2::rat) powi d * of_int b \<le> of_int a \<longleftrightarrow> rat_of_int b \<le> of_int (a * 2 ^ nat (- d))"
    unfolding p by (simp add: field_simps)
  then show ?thesis using False by (simp only: of_int_le_iff) simp
qed

lemma ilog2_quotient:
  assumes "0 < a" "0 < b"
  shows "ilog2 (of_int a / of_int b) = ilog2_quotient a b"
proof -
  define d where "d = bitlen a - bitlen b"
  define x where "x = rat_of_int a / of_int b"
  have b0: "0 < rat_of_int b" using assms by simp
  from bitlen_bounds [OF assms(1)] have a1: "(2::rat) powi (bitlen a - 1) \<le> of_int a"
    and a2: "rat_of_int a < 2 powi bitlen a"
  proof -
    have ba: "1 \<le> bitlen a" using assms(1) by (simp add: bitlen_ge_iff_power)
    from bitlen_bounds [OF assms(1)] have "rat_of_int (2 ^ nat (bitlen a - 1)) \<le> of_int a"
      by (simp only: of_int_le_iff)
    then show "(2::rat) powi (bitlen a - 1) \<le> of_int a" using ba by (simp add: two_powi_nonneg)
    from bitlen_bounds [OF assms(1)] have "rat_of_int a < of_int (2 ^ nat (bitlen a))"
      by (simp only: of_int_less_iff)
    then show "rat_of_int a < 2 powi bitlen a" using ba by (simp add: two_powi_nonneg)
  qed
  have b1: "(2::rat) powi (bitlen b - 1) \<le> of_int b" and b2: "rat_of_int b < 2 powi bitlen b"
  proof -
    have bb: "1 \<le> bitlen b" using assms(2) by (simp add: bitlen_ge_iff_power)
    from bitlen_bounds [OF assms(2)] have "rat_of_int (2 ^ nat (bitlen b - 1)) \<le> of_int b"
      by (simp only: of_int_le_iff)
    then show "(2::rat) powi (bitlen b - 1) \<le> of_int b" using bb by (simp add: two_powi_nonneg)
    from bitlen_bounds [OF assms(2)] have "rat_of_int b < of_int (2 ^ nat (bitlen b))"
      by (simp only: of_int_less_iff)
    then show "rat_of_int b < 2 powi bitlen b" using bb by (simp add: two_powi_nonneg)
  qed
  have up: "x < 2 powi (d + 1)"
  proof -
    have "rat_of_int a < 2 powi bitlen a" by (rule a2)
    also have "\<dots> = 2 powi (d + 1) * 2 powi (bitlen b - 1)"
      by (simp add: d_def power_int_add [symmetric])
    also have "\<dots> \<le> 2 powi (d + 1) * of_int b"
      using b1 by (intro mult_left_mono) simp_all
    finally show ?thesis using b0 by (simp add: x_def field_simps)
  qed
  have lo: "2 powi (d - 1) \<le> x"
  proof -
    have "(2::rat) powi (d - 1) * of_int b \<le> 2 powi (d - 1) * 2 powi bitlen b"
      using b2 by (intro mult_left_mono) simp_all
    also have "\<dots> = 2 powi (bitlen a - 1)"
      by (simp add: d_def power_int_add [symmetric])
    also have "\<dots> \<le> of_int a" by (rule a1)
    finally show ?thesis using b0 by (simp add: x_def field_simps)
  qed
  have test: "(if 0 \<le> d then b * 2 ^ nat d \<le> a else b \<le> a * 2 ^ nat (- d)) \<longleftrightarrow> 2 powi d \<le> x"
    using two_powi_diff_nat [of d b a] b0 by (simp add: x_def field_simps)
  have q: "ilog2_quotient a b = (if 2 powi d \<le> x then d else d - 1)"
    unfolding ilog2_quotient_def Let_def d_def [symmetric] test ..
  show ?thesis
  proof (cases "2 powi d \<le> x")
    case True
    then have "ilog2 x = d" using up by (rule ilog2_unique)
    then show ?thesis using True q by (simp add: x_def)
  next
    case False
    then have "x < 2 powi (d - 1 + 1)" by simp
    with lo have "ilog2 x = d - 1" by (rule ilog2_unique)
    then show ?thesis using False q by (simp add: x_def)
  qed
qed

lemma round_half_even_quotient:
  assumes "0 < m"
  shows "round_half_even (of_int p / of_int m) = round_half_even_quotient p m"
proof -
  have m0: "0 < rat_of_int m" using assms by simp
  have f: "\<lfloor>rat_of_int p / of_int m\<rfloor> = p div m" by (simp add: floor_divide_of_int_eq)
  have e: "rat_of_int p = of_int (p div m) * of_int m + of_int (p mod m)"
    by (simp only: of_int_add [symmetric] of_int_mult [symmetric] div_mult_mod_eq)
  have "rat_of_int p / of_int m = (of_int (p div m) * of_int m + of_int (p mod m)) / of_int m"
    by (simp only: e [symmetric])
  also have "\<dots> = of_int (p div m) + of_int (p mod m) / of_int m"
    using m0 by (simp only: add_divide_distrib) simp
  finally have d: "rat_of_int p / of_int m - of_int (p div m) = of_int (p mod m) / of_int m"
    by simp
  have lt: "of_int (p mod m) / rat_of_int m < 1 / 2 \<longleftrightarrow> 2 * (p mod m) < m"
  proof -
    have "of_int (p mod m) / rat_of_int m < 1 / 2 \<longleftrightarrow> rat_of_int (2 * (p mod m)) < of_int m"
      using m0 by (simp add: field_simps)
    then show ?thesis by (simp only: of_int_less_iff)
  qed
  have gt: "1 / 2 < of_int (p mod m) / rat_of_int m \<longleftrightarrow> m < 2 * (p mod m)"
  proof -
    have "1 / 2 < of_int (p mod m) / rat_of_int m \<longleftrightarrow> rat_of_int m < of_int (2 * (p mod m))"
      using m0 by (simp add: field_simps)
    then show ?thesis by (simp only: of_int_less_iff)
  qed
  show ?thesis
    unfolding round_half_even_def round_half_even_quotient_def Let_def f d lt gt ..
qed


lemma ilog2_zero: "ilog2 0 = 0"
proof -
  have "bitlen (- 1) = 0" by (simp add: bitlen_eq_zero_iff)
  then show ?thesis by (simp add: ilog2_def)
qed

lemma ilog2_scaled_int:
  assumes "n \<noteq> 0"
  shows "ilog2 \<bar>of_int n * 2 powi q\<bar> = bitlen \<bar>n\<bar> - 1 + q"
proof -
  have n: "0 < \<bar>n\<bar>" using assms by simp
  have b: "1 \<le> bitlen \<bar>n\<bar>" using n by (simp add: bitlen_ge_iff_power)
  have abs: "\<bar>rat_of_int n * 2 powi q\<bar> = of_int \<bar>n\<bar> * 2 powi q"
    by (simp add: abs_mult)
  from bitlen_bounds [OF n] have "rat_of_int (2 ^ nat (bitlen \<bar>n\<bar> - 1)) \<le> of_int \<bar>n\<bar>"
    by (simp only: of_int_le_iff)
  then have "(2::rat) powi (bitlen \<bar>n\<bar> - 1) \<le> of_int \<bar>n\<bar>"
    using b by (simp add: two_powi_nonneg)
  then have "(2::rat) powi (bitlen \<bar>n\<bar> - 1) * 2 powi q \<le> of_int \<bar>n\<bar> * 2 powi q"
    by (intro mult_right_mono) simp_all
  then have lo: "(2::rat) powi (bitlen \<bar>n\<bar> - 1 + q) \<le> of_int \<bar>n\<bar> * 2 powi q"
    by (simp add: power_int_add)
  from bitlen_bounds [OF n] have "rat_of_int \<bar>n\<bar> < of_int (2 ^ nat (bitlen \<bar>n\<bar>))"
    by (simp only: of_int_less_iff)
  then have "rat_of_int \<bar>n\<bar> < 2 powi bitlen \<bar>n\<bar>"
    using b by (simp add: two_powi_nonneg)
  then have "rat_of_int \<bar>n\<bar> * 2 powi q < 2 powi bitlen \<bar>n\<bar> * 2 powi q"
    by (intro mult_strict_right_mono) simp_all
  then have up: "rat_of_int \<bar>n\<bar> * 2 powi q < 2 powi (bitlen \<bar>n\<bar> - 1 + q + 1)"
    by (simp add: power_int_add)
  show ?thesis unfolding abs using lo up by (rule ilog2_unique)
qed

lemma round_double_quotient:
  assumes "0 < b"
  shows "round_double (of_int a / of_int b) = round_quotient a b"
proof (cases "a = 0")
  case True
  then show ?thesis by (simp add: round_double_def round_quotient_def)
next
  case False
  define x where "x = rat_of_int a / of_int b"
  define q where "q = max (ilog2_quotient \<bar>a\<bar> b - 52) (- 1074)"
  define n where "n = (if 0 \<le> q then round_half_even_quotient a (b * 2 ^ nat q)
                    else round_half_even_quotient (a * 2 ^ nat (- q)) b)"
  have b0: "0 < rat_of_int b" using assms by simp
  have x0: "x \<noteq> 0" using False assms by (simp add: x_def)
  have pos: "0 < x \<longleftrightarrow> 0 < a" using b0 by (simp add: x_def zero_less_divide_iff)
  have "\<bar>x\<bar> = of_int \<bar>a\<bar> / of_int b" using b0 by (simp add: x_def abs_divide)
  then have "ilog2 \<bar>x\<bar> = ilog2_quotient \<bar>a\<bar> b"
    using ilog2_quotient [of "\<bar>a\<bar>" b] False assms by simp
  then have q': "max (ilog2 \<bar>x\<bar> - 52) (- 1074) = q" by (simp add: q_def)
  have n': "round_half_even (x / pow2 q) = n"
  proof (cases "0 \<le> q")
    case True
    have "x / pow2 q = of_int a / of_int (b * 2 ^ nat q)"
      using True by (simp add: x_def pow2_def two_powi_nonneg)
    moreover have "0 < b * 2 ^ nat q" using assms by simp
    ultimately show ?thesis using True
      by (simp only: round_half_even_quotient n_def if_True)
  next
    case False
    have "x / pow2 q = of_int (a * 2 ^ nat (- q)) / of_int b"
      using False by (simp add: x_def pow2_def two_powi_neg)
    then show ?thesis using False assms
      by (simp only: round_half_even_quotient n_def if_False)
  qed
  have r: "of_int n * pow2 q =
      (if 0 \<le> q then rat_of_int (n * 2 ^ nat q) else of_int n / of_int (2 ^ nat (- q)))"
    by (simp add: pow2_def two_powi_nonneg two_powi_neg)
  have over: "1024 \<le> ilog2 \<bar>of_int n * pow2 q\<bar> \<longleftrightarrow> n \<noteq> 0 \<and> 1024 < bitlen \<bar>n\<bar> + q"
  proof (cases "n = 0")
    case True
    then show ?thesis by (simp add: ilog2_zero)
  next
    case False
    then show ?thesis unfolding pow2_def by (auto simp add: ilog2_scaled_int)
  qed
  have A: "round_double x =
      (if 1024 \<le> ilog2 \<bar>of_int n * pow2 q\<bar> then (if 0 < x then PInf else NInf)
       else Fin (of_int n * pow2 q))"
    using x0 by (simp add: round_double_def Let_def q' n')
  have B: "(if 1024 \<le> ilog2 \<bar>of_int n * pow2 q\<bar> then (if 0 < x then PInf else NInf)
       else Fin (of_int n * pow2 q)) =
      (if n \<noteq> 0 \<and> 1024 < bitlen \<bar>n\<bar> + q then (if 0 < a then PInf else NInf)
       else Fin (of_int n * pow2 q))"
    unfolding over pos ..
  have C: "round_quotient a b =
      (if n \<noteq> 0 \<and> 1024 < bitlen \<bar>n\<bar> + q then (if 0 < a then PInf else NInf)
       else Fin (if 0 \<le> q then rat_of_int (n * 2 ^ nat q) else of_int n / of_int (2 ^ nat (- q))))"
    unfolding round_quotient_def Let_def q_def [symmetric] n_def [symmetric]
    using False by (simp only: if_False)
  have D: "(if n \<noteq> 0 \<and> 1024 < bitlen \<bar>n\<bar> + q then (if 0 < a then PInf else NInf)
       else Fin (of_int n * pow2 q)) = round_quotient a b"
    by (simp only: C r)
  show ?thesis using A B D by (simp only: x_def)
qed

lemma round_double_code [code]:
  "round_double x = (case quotient_of x of (a, b) \<Rightarrow> round_quotient a b)"
proof -
  obtain a b where q: "quotient_of x = (a, b)" by (cases "quotient_of x")
  then have "x = of_int a / of_int b" "0 < b"
    by (simp_all add: quotient_of_div quotient_of_denom_pos)
  then show ?thesis using round_double_quotient [of b a] q by simp
qed

subsection \<open>The colour effect\<close>

lemma float_of_int_8bit: "channel_8bit v \<Longrightarrow> float_of_int v = Inr (Fin (of_int v))"
  by (simp add: float_of_int_def channel_8bit_def round_double_of_int)

lemma float_of_int_one: "float_of_int 1 = Inr (Fin 1)"
  using round_double_of_int [of 1] by (simp add: float_of_int_def)

lemma round_double_zero: "round_double 0 = Fin 0"
  by (simp add: round_double_def)

lemma round_double_one: "round_double 1 = Fin 1"
  using round_double_of_int [of 1] by simp

lemma clamp_8bit_id: "channel_8bit v \<Longrightarrow> clamp_8bit v = v"
  by (simp add: clamp_8bit_def channel_8bit_def)


lemma QColor_8bit:
  "channel_8bit r \<Longrightarrow> channel_8bit g \<Longrightarrow> channel_8bit b \<Longrightarrow> QColor r g b = Inr (Rgb r g b)"
  by (simp add: QColor_def rgb_color_def c_int_def channel_8bit_def)

lemma int_of_float_of_int: "int_of_float (Fin (of_int v)) = Inr v"
  by (simp add: int_of_float_def)

lemma effect_channel_zero:
  assumes "channel_8bit s" "channel_8bit e"
  shows "effect_channel s e (Fin 0) = Inr s"
  using assms
  by (simp add: effect_channel_def float_of_int_8bit float_of_int_one fsub_def
      round_double_one round_double_zero int_of_float_of_int clamp_8bit_id
      channel_8bit_def round_double_of_int)

lemma effect_channel_one:
  assumes "channel_8bit s" "channel_8bit e"
  shows "effect_channel s e (Fin 1) = Inr e"
  using assms
  by (simp add: effect_channel_def float_of_int_8bit float_of_int_one fsub_def
      round_double_one round_double_zero int_of_float_of_int clamp_8bit_id
      channel_8bit_def round_double_of_int)

text \<open>
  Claim C8. For every source colour and effect base colour with channels within 0 to 255,
  the blend with amount 0.0 is the source colour and the blend with amount 1.0 is the
  effect base colour.
\<close>

theorem blend_boundary:
  assumes "rgb_8bit source" and "rgb_8bit effect"
  shows "apply_color_effect source effect (Fin 0) = Inr source \<and>
         apply_color_effect source effect (Fin 1) = Inr effect"
proof -
  obtain sr sg sb where s: "source = Rgb sr sg sb" using assms(1) by (cases source) auto
  obtain er eg eb where e: "effect = Rgb er eg eb" using assms(2) by (cases effect) auto
  show ?thesis
    using assms unfolding s e
    by (simp add: apply_color_effect_def effect_channel_zero effect_channel_one QColor_8bit)
qed

theorem blend_boundary_witness:
  "rgb_8bit (Rgb 200 0 255) \<and> rgb_8bit (Rgb 100 255 0) \<and>
   apply_color_effect (Rgb 200 0 255) (Rgb 100 255 0) (Fin 0) = Inr (Rgb 200 0 255) \<and>
   apply_color_effect (Rgb 200 0 255) (Rgb 100 255 0) (Fin 1) = Inr (Rgb 100 255 0) \<and>
   py_float ''0.0'' = Inr (Fin 0) \<and> py_float ''1.0'' = Inr (Fin 1)"
proof -
  have h: "rgb_8bit (Rgb 200 0 255)" "rgb_8bit (Rgb 100 255 0)"
    by (simp_all add: channel_8bit_def)
  have "py_float ''0.0'' = Inr (Fin 0)" "py_float ''1.0'' = Inr (Fin 1)"
    by code_simp+
  with h blend_boundary [OF h] show ?thesis by simp
qed

lemma truncate_toward_zero_eq: "truncate_toward_zero q = (if 0 \<le> q then \<lfloor>q\<rfloor> else \<lceil>q\<rceil>)"
  by (simp add: truncate_toward_zero_def ceiling_def)

lemma effect_channel_spec:
  assumes "channel_8bit s" "channel_8bit e"
  shows "effect_channel s e amount = blend_channel_spec s e amount"
  using assms
  by (simp add: effect_channel_def blend_channel_spec_def float_of_int_8bit float_of_int_one
      int_of_float_def truncate_toward_zero_eq clamp8_def clamp_8bit_def
      split: double.splits)

lemma blend_channel_spec_8bit: "blend_channel_spec s e amount = Inr v \<Longrightarrow> channel_8bit v"
  by (auto simp add: blend_channel_spec_def clamp8_def channel_8bit_def split: double.splits)

text \<open>
  Claim C2. For every source colour and effect base colour with channels within 0 to 255
  and every amount, \<^verbatim>\<open>apply_color_effect\<close> computes each of the three channels
  independently as \<open>clamp8\<close> of the integer truncation toward zero of
  \<open>source_channel * (1 - amount) + effectBase_channel * amount\<close>, where
  \<open>clamp8(x) = max(0, min(x, 255))\<close>: it is the blend of the specification.
\<close>

theorem blend_formula:
  assumes "rgb_8bit source" and "rgb_8bit effect_base"
  shows "apply_color_effect source effect_base amount = blend_spec source effect_base amount"
proof -
  obtain sr sg sb where s: "source = Rgb sr sg sb" using assms(1) by (cases source) auto
  obtain er eg eb where e: "effect_base = Rgb er eg eb" using assms(2) by (cases effect_base) auto
  show ?thesis
    using assms unfolding s e
    by (simp add: apply_color_effect_def blend_spec_def effect_channel_spec QColor_8bit
        blend_channel_spec_8bit split: sum.splits)
qed

theorem blend_formula_witness:
  "rgb_8bit (Rgb 200 200 200) \<and> rgb_8bit (Rgb 100 100 100) \<and>
   apply_color_effect (Rgb 200 200 200) (Rgb 100 100 100) (Fin (1 / 2)) =
     blend_spec (Rgb 200 200 200) (Rgb 100 100 100) (Fin (1 / 2)) \<and>
   blend_spec (Rgb 200 200 200) (Rgb 100 100 100) (Fin (1 / 2)) = Inr (Rgb 150 150 150)"
proof -
  have h: "rgb_8bit (Rgb 200 200 200)" "rgb_8bit (Rgb 100 100 100)"
    by (simp_all add: channel_8bit_def)
  have "blend_spec (Rgb 200 200 200) (Rgb 100 100 100) (Fin (1 / 2)) = Inr (Rgb 150 150 150)"
    by code_simp
  with h blend_formula [OF h, of "Fin (1 / 2)"] show ?thesis by simp
qed


lemma effect_channel_self:
  assumes c: "channel_8bit c" and a: "0 \<le> a" "a \<le> 1"
  shows "\<exists>v. effect_channel c c (Fin a) = Inr v \<and> (v = c \<or> v = c - 1) \<and> channel_8bit v"
proof -
  define C where "C = rat_of_int c"
  define d where "d = (1::rat) / 2 ^ 43"
  have C: "0 \<le> C" "C \<le> 255" using c by (simp_all add: C_def channel_8bit_def)
  have d: "0 < d" "d \<le> 1 / 1000" by (simp_all add: d_def)
  obtain u where u: "round_double (1 - a) = Fin u" "\<bar>u - (1 - a)\<bar> \<le> d"
    using round_double_error [of "1 - a"] a unfolding d_def by auto
  have u_bd: "\<bar>u\<bar> \<le> 1 + d" using u(2) a by linarith
  have "\<bar>C * u\<bar> = C * \<bar>u\<bar>" using C by (simp add: abs_mult)
  also have "\<dots> \<le> 255 * (1 + d)"
    using C u_bd by (intro mult_mono) simp_all
  also have "\<dots> \<le> 1024" using d by simp
  finally have Cu: "\<bar>C * u\<bar> \<le> 1024" .
  obtain p1 where p1: "round_double (C * u) = Fin p1" "\<bar>p1 - C * u\<bar> \<le> d"
    using round_double_error [OF Cu] unfolding d_def by auto
  have "\<bar>C * a\<bar> = C * a" using C a by simp
  also have "\<dots> \<le> 255 * 1" using C a by (intro mult_mono) simp_all
  also have "\<dots> \<le> (1024::rat)" by simp
  finally have Ca: "\<bar>C * a\<bar> \<le> 1024" .
  obtain p2 where p2: "round_double (C * a) = Fin p2" "\<bar>p2 - C * a\<bar> \<le> d"
    using round_double_error [OF Ca] unfolding d_def by auto
  have e1: "\<bar>C * u - C * (1 - a)\<bar> \<le> 255 * d"
  proof -
    have "\<bar>C * u - C * (1 - a)\<bar> = C * \<bar>u - (1 - a)\<bar>"
      using C by (simp add: abs_mult right_diff_distrib [symmetric] del: right_diff_distrib)
    also have "\<dots> \<le> 255 * d" using C u(2) by (intro mult_mono) simp_all
    finally show ?thesis .
  qed
  have split: "C * (1 - a) + C * a = C" by (simp add: algebra_simps)
  have sum_bd: "\<bar>p1 + p2 - C\<bar> \<le> 257 * d"
    using p1(2) p2(2) e1 split by linarith
  then have "\<bar>p1 + p2\<bar> \<le> 1024" using C d by linarith
  then obtain s where s: "round_double (p1 + p2) = Fin s" "\<bar>s - (p1 + p2)\<bar> \<le> d"
    using round_double_error [of "p1 + p2"] unfolding d_def by auto
  have sC: "\<bar>s - C\<bar> \<le> 258 * d" using s(2) sum_bd by linarith
  then have near: "C - 1 < s" "s < C + 1" using d by linarith+
  define t where "t = (if 0 \<le> s then \<lfloor>s\<rfloor> else \<lceil>s\<rceil>)"
  have eval: "effect_channel c c (Fin a) = Inr (clamp_8bit t)"
    using c u(1) p1(1) p2(1) s(1)
    by (simp add: effect_channel_def float_of_int_8bit float_of_int_one fsub_def
        int_of_float_def t_def C_def)
  have t: "t = c \<or> t = c - 1"
  proof (cases "c = 0")
    case True
    then have "- 1 < s" "s < 1" using near by (simp_all add: C_def)
    then have "t = 0" unfolding t_def by (auto simp add: floor_eq_iff ceiling_eq_iff)
    with True show ?thesis by simp
  next
    case False
    then have "1 \<le> c" using c by (simp add: channel_8bit_def)
    then have "1 \<le> C" unfolding C_def by simp
    then have "0 \<le> s" using near by linarith
    then have "t = \<lfloor>s\<rfloor>" by (simp add: t_def)
    moreover have "c - 1 \<le> \<lfloor>s\<rfloor>" using near(1) by (simp add: le_floor_iff C_def)
    moreover have "\<lfloor>s\<rfloor> < c + 1" using near(2) floor_less_iff [of s "c + 1"] by (simp add: C_def)
    ultimately show ?thesis by linarith
  qed
  have "0 \<le> t"
  proof (cases "c = 0")
    case True
    then have "- 1 < s" "s < 1" using near by (simp_all add: C_def)
    then have "t = 0" unfolding t_def by (auto simp add: floor_eq_iff ceiling_eq_iff)
    then show ?thesis by simp
  next
    case False
    then have "1 \<le> c" using c by (simp add: channel_8bit_def)
    with t show ?thesis by auto
  qed
  moreover have "t \<le> 255" using t c by (auto simp add: channel_8bit_def)
  ultimately have "channel_8bit t" by (simp add: channel_8bit_def)
  with eval t show ?thesis by (auto simp add: clamp_8bit_id)
qed

text \<open>
  Claim C9, as amended. For every colour \<open>c\<close> with channels within 0 to 255 and every
  amount in [0,1], the blend of \<open>c\<close> with itself succeeds and each of its channels is
  the channel of \<open>c\<close> or one less: the float sum \<open>c * (1 - amount) + c * amount\<close> can
  be rounded to just below \<open>c\<close>, and \<^verbatim>\<open>int()\<close> truncates it.
\<close>

theorem blend_self:
  assumes "rgb_8bit c" and "0 \<le> amount" and "amount \<le> 1"
  shows "\<exists>r g b. apply_color_effect c c (Fin amount) = Inr (Rgb r g b) \<and>
           (r = red c \<or> r = red c - 1) \<and> (g = green c \<or> g = green c - 1) \<and>
           (b = blue c \<or> b = blue c - 1) \<and> rgb_8bit (Rgb r g b)"
proof -
  obtain cr cg cb where c: "c = Rgb cr cg cb" using assms(1) by (cases c) auto
  have ch: "channel_8bit cr" "channel_8bit cg" "channel_8bit cb"
    using assms(1) by (simp_all add: c)
  obtain r where r: "effect_channel cr cr (Fin amount) = Inr r" "r = cr \<or> r = cr - 1" "channel_8bit r"
    using effect_channel_self [OF ch(1) assms(2,3)] by blast
  obtain g where g: "effect_channel cg cg (Fin amount) = Inr g" "g = cg \<or> g = cg - 1" "channel_8bit g"
    using effect_channel_self [OF ch(2) assms(2,3)] by blast
  obtain b where b: "effect_channel cb cb (Fin amount) = Inr b" "b = cb \<or> b = cb - 1" "channel_8bit b"
    using effect_channel_self [OF ch(3) assms(2,3)] by blast
  have "apply_color_effect c c (Fin amount) = Inr (Rgb r g b)"
    by (simp add: apply_color_effect_def c r(1) g(1) b(1) QColor_8bit [OF r(3) g(3) b(3)])
  with r g b show ?thesis by (simp add: c)
qed

text \<open>
  The claim as stated fails for the float of \<^verbatim>\<open>0.3\<close>: blending (3,3,3) with itself
  gives (2,2,2).
\<close>

theorem blend_self_counterexample:
  "rgb_8bit (Rgb 3 3 3) \<and>
   py_float ''0.3'' = Inr (Fin (5404319552844595 / 2 ^ 54)) \<and>
   (0::rat) \<le> 5404319552844595 / 2 ^ 54 \<and> (5404319552844595 / 2 ^ 54 :: rat) \<le> 1 \<and>
   apply_color_effect (Rgb 3 3 3) (Rgb 3 3 3) (Fin (5404319552844595 / 2 ^ 54)) = Inr (Rgb 2 2 2)"
proof -
  have "py_float ''0.3'' = Inr (Fin (5404319552844595 / 2 ^ 54))"
    by code_simp
  moreover have "effect_channel 3 3 (Fin (5404319552844595 / 2 ^ 54)) = Inr 2"
    by code_simp
  ultimately show ?thesis
    by (simp add: apply_color_effect_def channel_8bit_def QColor_8bit)
qed

theorem blend_self_witness:
  "rgb_8bit (Rgb 3 3 3) \<and> (0::rat) \<le> 3 / 8 \<and> (3 / 8 :: rat) \<le> 1 \<and>
   (\<exists>r g b. apply_color_effect (Rgb 3 3 3) (Rgb 3 3 3) (Fin (3 / 8)) = Inr (Rgb r g b) \<and>
      (r = 3 \<or> r = 2) \<and> (g = 3 \<or> g = 2) \<and> (b = 3 \<or> b = 2))"
proof -
  have h: "rgb_8bit (Rgb 3 3 3)" by (simp add: channel_8bit_def)
  have a: "(0::rat) \<le> 3 / 8" "(3 / 8 :: rat) \<le> 1" by simp_all
  from blend_self [OF h a] h a show ?thesis by auto
qed

subsection \<open>Opening the theme\<close>

text \<open>
  Claim C6. When the theme resource cannot be opened for reading,
  \<^verbatim>\<open>load_color_palette\<close> fails with the error of the \<^verbatim>\<open>else\<close> branch: no
  palette is returned, and neither the parse nor the fallback pass runs.
\<close>

theorem unreadable_theme_fails:
  assumes "themes theme = None"
  shows "load_color_palette lighter darker default_palette themes theme =
           Inl (CouldNotOpenTheme theme)"
  using assms by (simp add: load_color_palette_def)

theorem unreadable_theme_fails_witness:
  "(Map.empty :: string \<Rightarrow> string option) ''breeze'' = None \<and>
   load_color_palette (\<lambda>c f. c) (\<lambda>c f. c) gray_palette Map.empty ''breeze'' =
     Inl (CouldNotOpenTheme ''breeze'')"
  using unreadable_theme_fails [where themes = Map.empty and theme = "''breeze''"
      and lighter = "\<lambda>c f. c" and darker = "\<lambda>c f. c" and default_palette = gray_palette]
  by simp

subsection \<open>The disabled-effect pass\<close>

lemma disabled_pass_outside:
  assumes "\<forall>l\<in>set pre. strip l \<noteq> ''[ColorEffects:Disabled]''"
  shows "disabled_pass (pre @ rest) False st = disabled_pass rest False st"
  using assms by (induction pre) simp_all

lemma disabled_pass_inside:
  assumes "\<forall>l\<in>set sec. \<not> closes_section (strip l)"
    and "closes_section (strip c)"
  shows "disabled_pass (sec @ c # post) True st = disabled_pass sec True st"
  using assms
proof (induction sec arbitrary: st)
  case Nil
  then show ?case by (simp add: closes_section_def)
next
  case (Cons l sec)
  then show ?case
    by (auto simp add: closes_section_def Let_def split: sum.splits)
qed

text \<open>
  Claim C3, as amended. The disabled-effect pass is outside the section until the first
  line that equals the header \<^verbatim>\<open>[ColorEffects:Disabled]\<close>, so the lines before it,
  key=value lines included, never change the effect base colour or the contrast amount.
  It is inside the section from that header to the first later line that starts with a
  bracket and is not the header; there the pass stops for good, and no later line, not
  even a later occurrence of the header, is read.
\<close>

theorem disabled_pass_sections:
  assumes "\<forall>l\<in>set pre. strip l \<noteq> ''[ColorEffects:Disabled]''"
    and "strip h = ''[ColorEffects:Disabled]''"
    and "\<forall>l\<in>set sec. \<not> closes_section (strip l)"
    and "closes_section (strip c)"
  shows "disabled_pass pre False st = Inr st \<and>
         disabled_pass (pre @ h # sec) False st = disabled_pass sec True st \<and>
         disabled_pass (pre @ h # sec @ c # post) False st = disabled_pass sec True st"
proof -
  have "disabled_pass (pre @ []) False st = disabled_pass [] False st"
    using assms(1) by (rule disabled_pass_outside)
  then have 1: "disabled_pass pre False st = Inr st" by simp
  have 2: "disabled_pass (pre @ h # sec) False st = disabled_pass sec True st"
    using disabled_pass_outside [OF assms(1), of "h # sec" st] assms(2) by simp
  have "disabled_pass (pre @ h # sec @ c # post) False st = disabled_pass (sec @ c # post) True st"
    using disabled_pass_outside [OF assms(1), of "h # sec @ c # post" st] assms(2) by simp
  also have "\<dots> = disabled_pass sec True st"
    using assms(3,4) by (rule disabled_pass_inside)
  finally show ?thesis using 1 2 by simp
qed


theorem disabled_pass_sections_witness:
  "list_all (\<lambda>l. strip l \<noteq> ''[ColorEffects:Disabled]'') [''[General]'', ''Color=9,9,9''] \<and>
   strip '' [ColorEffects:Disabled] '' = ''[ColorEffects:Disabled]'' \<and>
   list_all (\<lambda>l. \<not> closes_section (strip l)) [''Color=1,2,3'', ''ContrastAmount = 0.5''] \<and>
   closes_section (strip ''[Colors:Button]'') \<and>
   disabled_pass [''[General]'', ''Color=9,9,9''] False (Rgb 128 128 128, Fin 0) =
     Inr (Rgb 128 128 128, Fin 0) \<and>
   disabled_pass ([''[General]'', ''Color=9,9,9''] @ '' [ColorEffects:Disabled] '' #
       [''Color=1,2,3'', ''ContrastAmount = 0.5''] @ ''[Colors:Button]'' #
       [''[ColorEffects:Disabled]'', ''Color=4,5,6'']) False (Rgb 128 128 128, Fin 0) =
     Inr (Rgb 1 2 3, Fin (1 / 2))"
proof -
  have l1: "list_all (\<lambda>l. strip l \<noteq> ''[ColorEffects:Disabled]'') [''[General]'', ''Color=9,9,9'']"
    by code_simp
  have 2: "strip '' [ColorEffects:Disabled] '' = ''[ColorEffects:Disabled]''"
    by code_simp
  have l3: "list_all (\<lambda>l. \<not> closes_section (strip l)) [''Color=1,2,3'', ''ContrastAmount = 0.5'']"
    by code_simp
  have 4: "closes_section (strip ''[Colors:Button]'')"
    by code_simp
  have 5: "disabled_pass [''Color=1,2,3'', ''ContrastAmount = 0.5''] True (Rgb 128 128 128, Fin 0) =
      Inr (Rgb 1 2 3, Fin (1 / 2))"
    by code_simp
  have 1: "\<forall>l\<in>set [''[General]'', ''Color=9,9,9'']. strip l \<noteq> ''[ColorEffects:Disabled]''"
    using l1 by (simp only: list_all_iff)
  have 3: "\<forall>l\<in>set [''Color=1,2,3'', ''ContrastAmount = 0.5'']. \<not> closes_section (strip l)"
    using l3 by (simp only: list_all_iff)
  from disabled_pass_sections [OF 1 2 3 4,
      of "(Rgb 128 128 128, Fin 0)" "[''[ColorEffects:Disabled]'', ''Color=4,5,6'']"] 5
  have "disabled_pass [''[General]'', ''Color=9,9,9''] False (Rgb 128 128 128, Fin 0) =
     Inr (Rgb 128 128 128, Fin 0) \<and>
   disabled_pass ([''[General]'', ''Color=9,9,9''] @ '' [ColorEffects:Disabled] '' #
       [''Color=1,2,3'', ''ContrastAmount = 0.5''] @ ''[Colors:Button]'' #
       [''[ColorEffects:Disabled]'', ''Color=4,5,6'']) False (Rgb 128 128 128, Fin 0) =
     Inr (Rgb 1 2 3, Fin (1 / 2))"
    by simp
  with l1 2 l3 4 show ?thesis by blast
qed

text \<open>
  The claim as stated fails: the state machine of the specification enters a second
  disabled section, the loop has left at the \<^verbatim>\<open>break\<close>.
\<close>

theorem disabled_pass_reentry_counterexample:
  "disabled_pass [''[ColorEffects:Disabled]'', ''Color=1,2,3'', ''[Colors:Button]'',
       ''[ColorEffects:Disabled]'', ''Color=4,5,6''] False (Rgb 128 128 128, Fin 0) =
     Inr (Rgb 1 2 3, Fin 0) \<and>
   disabled_effect_spec [''[ColorEffects:Disabled]'', ''Color=1,2,3'', ''[Colors:Button]'',
       ''[ColorEffects:Disabled]'', ''Color=4,5,6''] Outside (Rgb 128 128 128, Fin 0) =
     Inr (Rgb 4 5 6, Fin 0)"
  by code_simp

subsection \<open>Key=value lines\<close>

lemma not_space_eq [simp]: "\<not> is_space CHR ''=''"
  by (simp add: is_space_def)

lemma dropWhile_space_append_eq:
  "dropWhile is_space (x @ CHR ''='' # y) = dropWhile is_space x @ CHR ''='' # y"
  by (induction x) simp_all

lemma strip_key_value:
  "strip (x @ CHR ''='' # y) =
     dropWhile is_space x @ CHR ''='' # rev (dropWhile is_space (rev y))"
proof -
  have "dropWhile is_space (rev y @ CHR ''='' # rev (dropWhile is_space x)) =
        dropWhile is_space (rev y) @ CHR ''='' # rev (dropWhile is_space x)"
    by (rule dropWhile_space_append_eq)
  then show ?thesis
    by (simp add: strip_def dropWhile_space_append_eq)
qed

lemma rstrip_Cons:
  "rev (dropWhile P (rev (x # v))) =
     (if rev (dropWhile P (rev v)) = [] \<and> P x then [] else x # rev (dropWhile P (rev v)))"
  by (auto simp add: dropWhile_append)

lemma lstrip_rstrip_commute:
  "dropWhile P (rev (dropWhile P (rev v))) = rev (dropWhile P (rev (dropWhile P v)))"
proof (induction v)
  case Nil
  then show ?case by simp
next
  case (Cons x v)
  show ?case
  proof (cases "P x")
    case True
    have "dropWhile P (rev (dropWhile P (rev (x # v)))) = dropWhile P (rev (dropWhile P (rev v)))"
    proof (cases "\<forall>y\<in>set v. P y")
      case all: True
      then have a: "dropWhile P (rev v) = []" and b: "dropWhile P (rev (x # v)) = []"
        using True by simp_all
      show ?thesis unfolding a b by simp
    next
      case notall: False
      then have "rev (dropWhile P (rev v)) \<noteq> []" by simp
      then show ?thesis using True by (simp only: rstrip_Cons) simp
    qed
    also have "\<dots> = rev (dropWhile P (rev (dropWhile P v)))" by (rule Cons.IH)
    also have "\<dots> = rev (dropWhile P (rev (dropWhile P (x # v))))" using True by simp
    finally show ?thesis .
  next
    case False
    then have "dropWhile P (x # v) = x # v" by simp
    then show ?thesis using False rstrip_Cons [of P x v] by auto
  qed
qed

lemma strip_alt: "strip s = dropWhile is_space (rev (dropWhile is_space (rev s)))"
  by (simp only: strip_def lstrip_rstrip_commute)

lemma strip_lstrip: "strip (dropWhile is_space x) = strip x"
  by (simp add: strip_def)

lemma strip_rstrip: "strip (rev (dropWhile is_space (rev y))) = strip y"
  by (simp add: strip_alt)

lemma strip_append_spaces:
  assumes "\<forall>c\<in>set w. is_space c"
  shows "strip (x @ w) = strip x"
  using assms by (simp add: strip_alt dropWhile_append)

lemma strip_spaces_append:
  assumes "\<forall>c\<in>set w. is_space c"
  shows "strip (w @ y) = strip y"
  using assms by (simp add: strip_def dropWhile_append)

lemma split_key_value_strip:
  assumes "CHR ''='' \<notin> set k"
  shows "split_key_value (strip (k @ CHR ''='' # v)) = (strip k, strip v)"
proof -
  have k: "\<forall>c\<in>set (dropWhile is_space k). c \<noteq> CHR ''=''"
    using assms set_dropWhileD by fastforce
  have "takeWhile (\<lambda>c. c \<noteq> CHR ''='') (dropWhile is_space k @ CHR ''='' # rev (dropWhile is_space (rev v)))
      = dropWhile is_space k"
    using k by (simp add: takeWhile_append)
  moreover have "dropWhile (\<lambda>c. c \<noteq> CHR ''='') (dropWhile is_space k @ CHR ''='' # rev (dropWhile is_space (rev v)))
      = CHR ''='' # rev (dropWhile is_space (rev v))"
    using k by (simp add: dropWhile_append)
  ultimately show ?thesis
    by (simp add: split_key_value_def strip_key_value strip_lstrip strip_rstrip)
qed


lemma eq_in_strip: "CHR ''='' \<in> set (strip (x @ CHR ''='' # y))"
  by (simp add: strip_key_value)

lemma strip_key_value_not_header: "strip (x @ CHR ''='' # y) \<noteq> ''[ColorEffects:Disabled]''"
proof
  assume "strip (x @ CHR ''='' # y) = ''[ColorEffects:Disabled]''"
  then have "CHR ''='' \<in> set ''[ColorEffects:Disabled]''"
    using eq_in_strip [of x y] by simp
  then show False by simp
qed

lemma startswith_strip_key_value:
  "startswith_bracket (strip (x @ CHR ''='' # y)) = startswith_bracket (dropWhile is_space x)"
proof (cases "dropWhile is_space x")
  case Nil
  show ?thesis unfolding strip_key_value Nil by (simp add: startswith_bracket_def)
next
  case (Cons c cs)
  show ?thesis unfolding strip_key_value Cons by (simp add: startswith_bracket_def)
qed

lemma startswith_lstrip_spaces:
  assumes "\<forall>c\<in>set w. is_space c"
  shows "startswith_bracket (dropWhile is_space (k @ w)) = startswith_bracket (dropWhile is_space k)"
proof (cases "\<forall>c\<in>set k. is_space c")
  case True
  then have a: "dropWhile is_space k = []" and b: "dropWhile is_space (k @ w) = []"
    using assms by (simp_all add: dropWhile_append)
  show ?thesis unfolding a b by simp
next
  case False
  then have a: "dropWhile is_space (k @ w) = dropWhile is_space k @ w"
    by (auto simp add: dropWhile_append)
  have "dropWhile is_space k \<noteq> []" using False by simp
  then obtain c cs where b: "dropWhile is_space k = c # cs"
    by (cases "dropWhile is_space k") auto
  show ?thesis unfolding a b by (simp add: startswith_bracket_def)
qed

lemma endswith_strip_key_value:
  "endswith_bracket (strip (x @ CHR ''='' # y)) =
     endswith_bracket (rev (dropWhile is_space (rev y)))"
  by (simp add: strip_key_value endswith_bracket_def)

lemma endswith_rstrip_spaces:
  assumes "\<forall>c\<in>set w. is_space c"
  shows "endswith_bracket (rev (dropWhile is_space (rev (w @ y)))) =
         endswith_bracket (rev (dropWhile is_space (rev y)))"
proof (cases "\<forall>c\<in>set y. is_space c")
  case True
  then have a: "dropWhile is_space (rev y) = []" and b: "dropWhile is_space (rev (w @ y)) = []"
    using assms by (simp_all add: dropWhile_append)
  show ?thesis unfolding a b by simp
next
  case False
  then have a: "dropWhile is_space (rev (w @ y)) = dropWhile is_space (rev y) @ rev w"
    by (auto simp add: dropWhile_append)
  have b: "rev (dropWhile is_space (rev y)) \<noteq> []" using False by simp
  show ?thesis unfolding a using b by (simp add: endswith_bracket_def)
qed

lemma spaced_line:
  assumes "CHR ''='' \<notin> set k" and "\<forall>c\<in>set w1. is_space c" and "\<forall>c\<in>set w2. is_space c"
  shows "split_key_value (strip (k @ w1 @ CHR ''='' # w2 @ v)) =
           split_key_value (strip (k @ CHR ''='' # v))"
    and "startswith_bracket (strip (k @ w1 @ CHR ''='' # w2 @ v)) =
           startswith_bracket (strip (k @ CHR ''='' # v))"
    and "endswith_bracket (strip (k @ w1 @ CHR ''='' # w2 @ v)) =
           endswith_bracket (strip (k @ CHR ''='' # v))"
proof -
  have w1: "CHR ''='' \<notin> set (k @ w1)" using assms(1,2) by auto
  have "split_key_value (strip ((k @ w1) @ CHR ''='' # (w2 @ v))) = (strip (k @ w1), strip (w2 @ v))"
    using w1 by (rule split_key_value_strip)
  then show "split_key_value (strip (k @ w1 @ CHR ''='' # w2 @ v)) =
           split_key_value (strip (k @ CHR ''='' # v))"
    using assms by (simp add: split_key_value_strip strip_append_spaces strip_spaces_append)
  show "startswith_bracket (strip (k @ w1 @ CHR ''='' # w2 @ v)) =
           startswith_bracket (strip (k @ CHR ''='' # v))"
    using startswith_strip_key_value [of "k @ w1" "w2 @ v"] startswith_strip_key_value [of k v]
      startswith_lstrip_spaces [OF assms(2), of k] by simp
  show "endswith_bracket (strip (k @ w1 @ CHR ''='' # w2 @ v)) =
           endswith_bracket (strip (k @ CHR ''='' # v))"
    using endswith_strip_key_value [of "k @ w1" "w2 @ v"] endswith_strip_key_value [of k v]
      endswith_rstrip_spaces [OF assms(3), of v] by simp
qed

lemma split_key_value_spaced:
  assumes "CHR ''='' \<notin> set k" and "\<forall>c\<in>set w1. is_space c" and "\<forall>c\<in>set w2. is_space c"
  shows "split_key_value (strip (k @ w1 @ CHR ''='' # w2 @ v)) = (strip k, strip v)"
  using spaced_line(1) [OF assms, of v] split_key_value_strip [OF assms(1), of v] by simp

text \<open>
  Claim C10. In both passes a key=value line is split at its first \<^verbatim>\<open>=\<close> only, and
  the key and the value are stripped of surrounding whitespace. For a line that consists
  of a text \<open>k\<close> without \<^verbatim>\<open>=\<close>, whitespace, \<^verbatim>\<open>=\<close>, whitespace and any text
  \<open>v\<close>, the key is \<open>strip k\<close> and the value is \<open>strip v\<close>, which keeps every further
  \<^verbatim>\<open>=\<close>. Inside the disabled section the first pass compares \<open>strip k\<close> with
  \<^verbatim>\<open>Color\<close> and \<^verbatim>\<open>ContrastAmount\<close> and converts \<open>strip v\<close>; the second pass
  looks \<open>strip k\<close> up in the role mapping of the section and converts \<open>strip v\<close>.
  (A line that starts with \<^verbatim>\<open>[\<close> ends the disabled section in the first pass; in
  the second pass a line that starts with \<^verbatim>\<open>[\<close> and ends with \<^verbatim>\<open>]\<close> is a
  section header.)
\<close>

theorem key_value_lines:
  assumes "CHR ''='' \<notin> set k" and "\<forall>c\<in>set w1. is_space c" and "\<forall>c\<in>set w2. is_space c"
  shows "split_key_value (strip (k @ w1 @ ''='' @ w2 @ v)) = (strip k, strip v) \<and>
         (\<not> startswith_bracket (strip (k @ w1 @ ''='' @ w2 @ v)) \<longrightarrow>
            disabled_pass ((k @ w1 @ ''='' @ w2 @ v) # ls) True st =
              (if strip k = ''Color''
               then (case parse_rgb (strip v) of
                       Inl err \<Rightarrow> Inl err
                     | Inr (r, g, b) \<Rightarrow>
                         (case setRgb r g b of
                            Inl err \<Rightarrow> Inl err
                          | Inr c \<Rightarrow> disabled_pass ls True (c, snd st)))
               else if strip k = ''ContrastAmount''
               then (case py_float (strip v) of
                       Inl err \<Rightarrow> Inl err
                     | Inr contrast \<Rightarrow> disabled_pass ls True (fst st, contrast))
               else disabled_pass ls True st)) \<and>
         (\<not> (startswith_bracket (strip (k @ w1 @ ''='' @ w2 @ v)) \<and>
             endswith_bracket (strip (k @ w1 @ ''='' @ w2 @ v))) \<longrightarrow>
            role_pass ((k @ w1 @ ''='' @ w2 @ v) # ls) sect amount pst =
              (case qt_color_role sect (strip k) of
                 None \<Rightarrow> role_pass ls sect amount pst
               | Some role \<Rightarrow>
                   (case parse_rgb (strip v) of
                      Inl err \<Rightarrow> Inl err
                    | Inr (r, g, b) \<Rightarrow>
                        (case QColor r g b of
                           Inl err \<Rightarrow> Inl err
                         | Inr c \<Rightarrow>
                             (case apply_color_effect c (snd pst) amount of
                                Inl err \<Rightarrow> Inl err
                              | Inr d \<Rightarrow>
                                  role_pass ls sect amount
                                    (setColor Disabled role d
                                       (setColor Inactive role c
                                          (setColor Normal role c (fst pst))), d))))))"
proof -
  let ?l = "k @ w1 @ CHR ''='' # w2 @ v"
  have kv: "split_key_value (strip ?l) = (strip k, strip v)"
    using assms by (rule split_key_value_spaced)
  have eq: "CHR ''='' \<in> set (strip ?l)"
    using eq_in_strip [of "k @ w1" "w2 @ v"] by simp
  have nh: "strip ?l \<noteq> ''[ColorEffects:Disabled]''"
    using strip_key_value_not_header [of "k @ w1" "w2 @ v"] by simp
  have 1: "split_key_value (strip (k @ w1 @ ''='' @ w2 @ v)) = (strip k, strip v)"
    using kv by simp
  have 2: "disabled_pass (?l # ls) True st =
              (if strip k = ''Color''
               then (case parse_rgb (strip v) of
                       Inl err \<Rightarrow> Inl err
                     | Inr (r, g, b) \<Rightarrow>
                         (case setRgb r g b of
                            Inl err \<Rightarrow> Inl err
                          | Inr c \<Rightarrow> disabled_pass ls True (c, snd st)))
               else if strip k = ''ContrastAmount''
               then (case py_float (strip v) of
                       Inl err \<Rightarrow> Inl err
                     | Inr contrast \<Rightarrow> disabled_pass ls True (fst st, contrast))
               else disabled_pass ls True st)"
    if "\<not> startswith_bracket (strip ?l)"
    using that eq nh
    by (simp add: Let_def disabled_key_value_def kv split: sum.splits prod.splits)
  have 3: "role_pass (?l # ls) sect amount pst =
              (case qt_color_role sect (strip k) of
                 None \<Rightarrow> role_pass ls sect amount pst
               | Some role \<Rightarrow>
                   (case parse_rgb (strip v) of
                      Inl err \<Rightarrow> Inl err
                    | Inr (r, g, b) \<Rightarrow>
                        (case QColor r g b of
                           Inl err \<Rightarrow> Inl err
                         | Inr c \<Rightarrow>
                             (case apply_color_effect c (snd pst) amount of
                                Inl err \<Rightarrow> Inl err
                              | Inr d \<Rightarrow>
                                  role_pass ls sect amount
                                    (setColor Disabled role d
                                       (setColor Inactive role c
                                          (setColor Normal role c (fst pst))), d)))))"
    if "\<not> (startswith_bracket (strip ?l) \<and> endswith_bracket (strip ?l))"
    using that eq
    by (auto simp add: Let_def role_key_value_def kv split: sum.splits prod.splits option.splits)
  from 1 2 3 show ?thesis by simp
qed

theorem key_value_lines_witness:
  "CHR ''='' \<notin> set ''Color'' \<and> list_all is_space '' '' \<and>
   split_key_value (strip ''Color = 1,2,3'') = (''Color'', ''1,2,3'') \<and>
   \<not> startswith_bracket (strip ''Color = 1,2,3'') \<and>
   disabled_pass [''Color = 1,2,3''] True (Rgb 128 128 128, Fin 0) = Inr (Rgb 1 2 3, Fin 0) \<and>
   disabled_pass [''Color=1,2,3''] True (Rgb 128 128 128, Fin 0) = Inr (Rgb 1 2 3, Fin 0) \<and>
   CHR ''='' \<notin> set ''ContrastAmount'' \<and>
   split_key_value (strip ''ContrastAmount=0.5=1'') = (''ContrastAmount'', ''0.5=1'') \<and>
   \<not> startswith_bracket (strip ''ContrastAmount=0.5=1'') \<and>
   disabled_pass [''ContrastAmount=0.5=1''] True (Rgb 128 128 128, Fin 0) = Inl ValueError \<and>
   CHR ''='' \<notin> set ''BackgroundNormal'' \<and>
   \<not> (startswith_bracket (strip ''BackgroundNormal = 1,2,3'') \<and>
      endswith_bracket (strip ''BackgroundNormal = 1,2,3'')) \<and>
   role_pass [''BackgroundNormal = 1,2,3''] (Some ''Colors:Button'') (Fin 0)
       (gray_palette, Rgb 128 128 128) =
     Inr (setColor Disabled Button (Rgb 1 2 3)
            (setColor Inactive Button (Rgb 1 2 3)
               (setColor Normal Button (Rgb 1 2 3) gray_palette)), Rgb 1 2 3) \<and>
   \<not> (startswith_bracket (strip ''BackgroundNormal=1,2,3=4'') \<and>
      endswith_bracket (strip ''BackgroundNormal=1,2,3=4'')) \<and>
   role_pass [''BackgroundNormal=1,2,3=4''] (Some ''Colors:Button'') (Fin 0)
       (gray_palette, Rgb 128 128 128) = Inl ValueError"
proof -
  let ?st = "(Rgb 128 128 128, Fin 0)"
  let ?pst = "(gray_palette, Rgb 128 128 128)"
  let ?sec = "Some ''Colors:Button''"
  have sp: "\<forall>c\<in>set '' ''. is_space c" and em: "\<forall>c\<in>set ''''. is_space c"
    by (simp_all add: is_space_def)
  have la: "list_all is_space '' ''" by (simp add: is_space_def)
  have k1: "CHR ''='' \<notin> set ''Color''" and k2: "CHR ''='' \<notin> set ''ContrastAmount''"
    and k3: "CHR ''='' \<notin> set ''BackgroundNormal''"
    by simp_all
  have s: "strip ''Color'' = ''Color''" "strip ''1,2,3'' = ''1,2,3''"
    "strip ''ContrastAmount'' = ''ContrastAmount''" "strip ''0.5=1'' = ''0.5=1''"
    "strip ''BackgroundNormal'' = ''BackgroundNormal''" "strip ''1,2,3=4'' = ''1,2,3=4''"
    by code_simp+
  have b: "\<not> startswith_bracket (strip ''Color = 1,2,3'')"
    "\<not> startswith_bracket (strip ''Color=1,2,3'')"
    "\<not> startswith_bracket (strip ''ContrastAmount=0.5=1'')"
    "\<not> (startswith_bracket (strip ''BackgroundNormal = 1,2,3'') \<and>
        endswith_bracket (strip ''BackgroundNormal = 1,2,3''))"
    "\<not> (startswith_bracket (strip ''BackgroundNormal=1,2,3=4'') \<and>
        endswith_bracket (strip ''BackgroundNormal=1,2,3=4''))"
    by code_simp+
  have v: "parse_rgb ''1,2,3'' = Inr (1, 2, 3)" "setRgb 1 2 3 = Inr (Rgb 1 2 3)"
    "py_float ''0.5=1'' = Inl ValueError" "parse_rgb ''1,2,3=4'' = Inl ValueError"
    "qt_color_role (Some ''Colors:Button'') ''BackgroundNormal'' = Some Button"
    "QColor 1 2 3 = Inr (Rgb 1 2 3)"
    "apply_color_effect (Rgb 1 2 3) (Rgb 128 128 128) (Fin 0) = Inr (Rgb 1 2 3)"
    by code_simp+
  note spaced = key_value_lines [OF k1 sp sp, where v = "''1,2,3''" and ls = "[]" and st = ?st]
  note plain = key_value_lines [OF k1 em em, where v = "''1,2,3''" and ls = "[]" and st = ?st]
  note further = key_value_lines [OF k2 em em, where v = "''0.5=1''" and ls = "[]" and st = ?st]
  note role = key_value_lines [OF k3 sp sp, where v = "''1,2,3''" and ls = "[]"
      and sect = ?sec and amount = "Fin 0" and pst = ?pst]
  note role_further = key_value_lines [OF k3 em em, where v = "''1,2,3=4''" and ls = "[]"
      and sect = ?sec and amount = "Fin 0" and pst = ?pst]
  have 1: "split_key_value (strip ''Color = 1,2,3'') = (''Color'', ''1,2,3'')"
    using spaced unfolding s by (simp del: disabled_pass.simps role_pass.simps)
  have 2: "disabled_pass [''Color = 1,2,3''] True ?st = Inr (Rgb 1 2 3, Fin 0)"
    using spaced b(1) unfolding s v by (simp add: v del: disabled_pass.simps(2) role_pass.simps)
  have 3: "disabled_pass [''Color=1,2,3''] True ?st = Inr (Rgb 1 2 3, Fin 0)"
    using plain b(2) unfolding s v by (simp add: v del: disabled_pass.simps(2) role_pass.simps)
  have 4: "split_key_value (strip ''ContrastAmount=0.5=1'') = (''ContrastAmount'', ''0.5=1'')"
    using further unfolding s by (simp del: disabled_pass.simps role_pass.simps)
  have 5: "disabled_pass [''ContrastAmount=0.5=1''] True ?st = Inl ValueError"
    using further b(3) unfolding s v by (simp add: v del: disabled_pass.simps(2) role_pass.simps)
  have 6: "role_pass [''BackgroundNormal = 1,2,3''] ?sec (Fin 0) ?pst =
     Inr (setColor Disabled Button (Rgb 1 2 3)
            (setColor Inactive Button (Rgb 1 2 3)
               (setColor Normal Button (Rgb 1 2 3) gray_palette)), Rgb 1 2 3)"
    using role b(4) unfolding s v by (simp add: v del: disabled_pass.simps role_pass.simps(2))
  have 7: "role_pass [''BackgroundNormal=1,2,3=4''] ?sec (Fin 0) ?pst = Inl ValueError"
    using role_further b(5) unfolding s v by (simp add: v del: disabled_pass.simps role_pass.simps(2))
  from la k1 k2 k3 b 1 2 3 4 5 6 7 show ?thesis by blast
qed

subsection \<open>Malformed colour values\<close>








subsection \<open>The fallback pass\<close>

lemma setColor_apply:
  "setColor g r c p (g', r') = (if g' = g \<and> r' = r then c else p (g', r'))"
  by (simp add: setColor_def)

lemma color_setColorAll:
  "color (setColorAll r c p) r' = (if r' = r then c else color p r')"
  by (simp add: color_def setColorAll_def setColor_def)

lemma setColorAll_apply:
  "setColorAll r c p (g, r') = (if r' = r then c else p (g, r'))"
  by (cases g) (simp_all add: setColorAll_def setColor_def)

lemma fallback_other:
  "r \<notin> {Light, Dark, Midlight, Mid, Shadow} \<Longrightarrow> fallback lighter darker p (g, r) = p (g, r)"
  unfolding fallback_def Let_def by (simp add: color_setColorAll setColorAll_apply)

text \<open>
  What the five guarded blocks compute for a palette in which the colours of the five
  roles are invalid, and that they leave a palette with five valid colours as it is.
\<close>

lemma fallback_invalid:
  assumes "\<not> isValid (color p Light)" and "\<not> isValid (color p Dark)"
    and "\<not> isValid (color p Midlight)" and "\<not> isValid (color p Mid)"
    and "\<not> isValid (color p Shadow)"
  shows "fallback lighter darker p (g, Light) = lighter (color p Button) 150"
    and "fallback lighter darker p (g, Dark) = darker (color p Window) 150"
    and "fallback lighter darker p (g, Midlight) =
           average (lighter (color p Button) 150) (color p Button)"
    and "fallback lighter darker p (g, Mid) =
           average (darker (color p Window) 150) (color p Button)"
    and "fallback lighter darker p (g, Shadow) = Rgb 0 0 0"
  using assms unfolding fallback_def Let_def
  by (simp_all add: color_setColorAll setColorAll_apply rgb_color_def)

lemma fallback_valid:
  assumes "list_all (\<lambda>role. isValid (color p role)) [Light, Dark, Midlight, Mid, Shadow]"
  shows "fallback lighter darker p = p"
  using assms by (simp add: fallback_def)

lemma qt_color_role_not_fallback:
  assumes "qt_color_role sect key = Some role"
  shows "role \<notin> {Light, Dark, Midlight, Mid, Shadow}"
  using assms
  by (auto simp add: qt_color_role_def section_role_mapping_def split: option.splits if_splits)

lemma assigned_roles_not_fallback:
  assumes "role \<in> set (assigned_roles ls sect)"
  shows "role \<notin> {Light, Dark, Midlight, Mid, Shadow}"
  using assms
proof (induction ls arbitrary: sect)
  case Nil
  then show ?case by simp
next
  case (Cons l ls)
  then show ?case
    using qt_color_role_not_fallback
    by (auto simp add: Let_def split: if_splits option.splits simp del: insert_iff)
qed

lemma role_key_value_other:
  assumes "role_key_value sect amount line st = Inr st'"
    and "qt_color_role sect (fst (split_key_value line)) \<noteq> Some role"
  shows "fst st' (g, role) = fst st (g, role)"
  using assms
  by (auto simp add: role_key_value_def split_beta setColor_apply
      split: option.splits sum.splits)

lemma role_pass_other:
  assumes "role_pass ls sect amount st = Inr st'"
    and "role \<notin> set (assigned_roles ls sect)"
  shows "fst st' (g, role) = fst st (g, role)"
  using assms
proof (induction ls arbitrary: sect st)
  case Nil
  then show ?case by simp
next
  case (Cons l ls)
  show ?case
  proof (cases "startswith_bracket (strip l) \<and> endswith_bracket (strip l)")
    case True
    then show ?thesis using Cons.prems Cons.IH by (auto simp add: Let_def split: if_splits)
  next
    case header: False
    show ?thesis
    proof (cases "CHR ''='' \<in> set (strip l)")
      case False
      then show ?thesis using header Cons.prems Cons.IH
        by (auto simp add: Let_def split: if_splits)
    next
      case True
      with header Cons.prems(1) obtain st1 where
        st1: "role_key_value sect amount (strip l) st = Inr st1"
        and rest: "role_pass ls sect amount st1 = Inr st'"
        by (auto simp add: Let_def split: sum.splits if_splits)
      have no: "qt_color_role sect (fst (split_key_value (strip l))) \<noteq> Some role"
        and tail: "role \<notin> set (assigned_roles ls sect)"
        using Cons.prems(2) header True by (auto simp add: Let_def split: option.splits)
      have "fst st' (g, role) = fst st1 (g, role)"
        using rest tail by (rule Cons.IH)
      also have "\<dots> = fst st (g, role)"
        using st1 no by (rule role_key_value_other)
      finally show ?thesis .
    qed
  qed
qed

lemma parse_content_other:
  assumes "parse_content default_palette content = Inr p"
    and "role \<notin> set (assigned_roles (split_on (CHR 0x0A) content) None)"
  shows "p (g, role) = default_palette (g, role)"
proof -
  from assms(1) obtain dc amt st where
    st: "role_pass (split_on (CHR 0x0A) content) None amt (default_palette, dc) = Inr st"
    and p: "p = fst st"
    by (auto simp add: parse_content_def Let_def split: sum.splits prod.splits)
  show ?thesis using role_pass_other [OF st assms(2), of g] by (simp add: p)
qed

text \<open>
  Claim C4 does not hold of the code. The five blocks of the fallback calculations are
  guarded by \<^verbatim>\<open>not palette.color(role).isValid()\<close>, but the palette that
  \<^verbatim>\<open>QPalette()\<close> creates has a valid default colour for each of the roles Light, Dark,
  Midlight, Mid and Shadow, and the main parse assigns none of them. So no guard holds
  after the main parse of any theme: the loaded palette is the palette of the main parse,
  and in it the five roles have the default colours of the toolkit in every group. They
  are not derived from Button and Window, and Shadow is not set to (0,0,0).
\<close>

theorem fallback_never_applies:
  assumes "load_color_palette lighter darker default_palette themes theme = Inr palette"
    and "list_all (\<lambda>role. isValid (color default_palette role))
           [Light, Dark, Midlight, Mid, Shadow]"
  shows "(\<exists>content. themes theme = Some content \<and>
            parse_content default_palette content = Inr palette) \<and>
         palette (g, Light) = default_palette (g, Light) \<and>
         palette (g, Dark) = default_palette (g, Dark) \<and>
         palette (g, Midlight) = default_palette (g, Midlight) \<and>
         palette (g, Mid) = default_palette (g, Mid) \<and>
         palette (g, Shadow) = default_palette (g, Shadow)"
proof -
  from assms(1) obtain content p where content: "themes theme = Some content"
    and p: "parse_content default_palette content = Inr p"
    and palette: "palette = fallback lighter darker p"
    by (auto simp add: load_color_palette_def split: option.splits sum.splits)
  have same: "p (g', role) = default_palette (g', role)"
    if "role \<in> {Light, Dark, Midlight, Mid, Shadow}" for g' role
    using p assigned_roles_not_fallback [of role "split_on (CHR 0x0A) content" None] that
    by (intro parse_content_other) auto
  have "list_all (\<lambda>role. isValid (color p role)) [Light, Dark, Midlight, Mid, Shadow]"
    using assms(2) same by (simp add: color_def)
  then have "fallback lighter darker p = p" by (rule fallback_valid)
  then have "palette = p" by (simp add: palette)
  with content p same show ?thesis by simp
qed

theorem fallback_never_applies_witness:
  "list_all (\<lambda>role. isValid (color gray_palette role)) [Light, Dark, Midlight, Mid, Shadow] \<and>
   map (loaded_color (load_color_palette lighter_halfway darker_halfway gray_palette
          [''kde'' \<mapsto> ''[Colors:Button]'' @ [CHR 0x0A] @ ''BackgroundNormal=200,200,200'' @
             [CHR 0x0A] @ ''[Colors:Window]'' @ [CHR 0x0A] @ ''BackgroundNormal=90,90,90'']
          ''kde'') Normal)
     [Button, Window, Light, Dark, Midlight, Mid, Shadow] =
     [Some (Rgb 200 200 200), Some (Rgb 90 90 90), Some (Rgb 160 160 164),
      Some (Rgb 160 160 164), Some (Rgb 160 160 164), Some (Rgb 160 160 164),
      Some (Rgb 160 160 164)] \<and>
   lighter_halfway (Rgb 200 200 200) 150 = Rgb 227 227 227 \<and>
   darker_halfway (Rgb 90 90 90) 150 = Rgb 45 45 45"
proof -
  let ?content = "''[Colors:Button]'' @ [CHR 0x0A] @ ''BackgroundNormal=200,200,200'' @
             [CHR 0x0A] @ ''[Colors:Window]'' @ [CHR 0x0A] @ ''BackgroundNormal=90,90,90''"
  let ?load = "load_color_palette lighter_halfway darker_halfway gray_palette
      [''kde'' \<mapsto> ?content] ''kde''"
  have v: "list_all (\<lambda>role. isValid (color gray_palette role))
      [Light, Dark, Midlight, Mid, Shadow]"
    by (simp add: color_def gray_palette_def)
  have b: "loaded_color ?load Normal Button = Some (Rgb 200 200 200)"
    and w: "loaded_color ?load Normal Window = Some (Rgb 90 90 90)"
    by code_simp+
  from b obtain palette where p: "?load = Inr palette"
    by (cases ?load) (simp_all add: loaded_color_def)
  from fallback_never_applies [OF p v, of Normal]
  have "map (\<lambda>role. palette (Normal, role)) [Light, Dark, Midlight, Mid, Shadow] =
      [Rgb 160 160 164, Rgb 160 160 164, Rgb 160 160 164, Rgb 160 160 164, Rgb 160 160 164]"
    by (simp add: gray_palette_def)
  then have f: "map (loaded_color ?load Normal) [Light, Dark, Midlight, Mid, Shadow] =
      [Some (Rgb 160 160 164), Some (Rgb 160 160 164), Some (Rgb 160 160 164),
       Some (Rgb 160 160 164), Some (Rgb 160 160 164)]"
    unfolding p by (simp add: loaded_color_def)
  have l: "lighter_halfway (Rgb 200 200 200) 150 = Rgb 227 227 227"
    "darker_halfway (Rgb 90 90 90) 150 = Rgb 45 45 45"
    by (simp_all add: lighter_halfway_def darker_halfway_def average_def rgb_color_def)
  from v b w f l show ?thesis by simp
qed

subsection \<open>Themes without a disabled section\<close>




lemma QColor_valid:
  assumes "QColor r g b = Inr c"
  shows "isValid c = (channel_8bit r \<and> channel_8bit g \<and> channel_8bit b)"
  using assms
  by (auto simp add: QColor_def rgb_color_def channel_8bit_def split: if_splits)







subsection \<open>The effect base of later roles\<close>

text \<open>
  Claim C1 does not hold of the code: the second loop assigns the computed disabled colour
  to the variable that holds the parsed effect base, so every role after the first is
  blended with the disabled colour of the role before it. In the theme below the parsed
  effect is (100,100,100) with amount 0.5; the disabled colour of Button is the blend
  (150,150,150) with the parsed base, but the disabled colour of ButtonText is
  (75,75,75), the blend of (0,0,0) with (150,150,150), where the claim requires the blend
  with the parsed base, (50,50,50).
\<close>

theorem effect_base_overwritten:
  "disabled_pass (split_on (CHR 0x0A)
       (''[ColorEffects:Disabled]'' @ [CHR 0x0A] @ ''Color=100,100,100'' @ [CHR 0x0A] @
        ''ContrastAmount=0.5'' @ [CHR 0x0A] @ ''[Colors:Button]'' @ [CHR 0x0A] @
        ''BackgroundNormal=200,200,200'' @ [CHR 0x0A] @ ''ForegroundNormal=0,0,0''))
     False (Rgb 128 128 128, Fin 0) = Inr (Rgb 100 100 100, Fin (1 / 2)) \<and>
   loaded_color (load_color_palette lighter darker default_palette
       [''kde'' \<mapsto> ''[ColorEffects:Disabled]'' @ [CHR 0x0A] @ ''Color=100,100,100'' @ [CHR 0x0A] @
        ''ContrastAmount=0.5'' @ [CHR 0x0A] @ ''[Colors:Button]'' @ [CHR 0x0A] @
        ''BackgroundNormal=200,200,200'' @ [CHR 0x0A] @ ''ForegroundNormal=0,0,0''] ''kde'')
     Disabled Button = Some (Rgb 150 150 150) \<and>
   loaded_color (load_color_palette lighter darker default_palette
       [''kde'' \<mapsto> ''[ColorEffects:Disabled]'' @ [CHR 0x0A] @ ''Color=100,100,100'' @ [CHR 0x0A] @
        ''ContrastAmount=0.5'' @ [CHR 0x0A] @ ''[Colors:Button]'' @ [CHR 0x0A] @
        ''BackgroundNormal=200,200,200'' @ [CHR 0x0A] @ ''ForegroundNormal=0,0,0''] ''kde'')
     Disabled ButtonText = Some (Rgb 75 75 75) \<and>
   apply_color_effect (Rgb 0 0 0) (Rgb 100 100 100) (Fin (1 / 2)) = Inr (Rgb 50 50 50) \<and>
   apply_color_effect (Rgb 0 0 0) (Rgb 150 150 150) (Fin (1 / 2)) = Inr (Rgb 75 75 75)"
proof -
  let ?content = "''[ColorEffects:Disabled]'' @ [CHR 0x0A] @ ''Color=100,100,100'' @ [CHR 0x0A] @
        ''ContrastAmount=0.5'' @ [CHR 0x0A] @ ''[Colors:Button]'' @ [CHR 0x0A] @
        ''BackgroundNormal=200,200,200'' @ [CHR 0x0A] @ ''ForegroundNormal=0,0,0''"
  have d: "disabled_pass (split_on (CHR 0x0A) ?content) False (Rgb 128 128 128, Fin 0) =
      Inr (Rgb 100 100 100, Fin (1 / 2))"
    by code_simp
  have "(case parse_content default_palette ?content of
           Inl err \<Rightarrow> None
         | Inr p \<Rightarrow> Some (p (Disabled, Button), p (Disabled, ButtonText))) =
        Some (Rgb 150 150 150, Rgb 75 75 75)"
    by code_simp
  then obtain p where p: "parse_content default_palette ?content = Inr p"
    and pb: "p (Disabled, Button) = Rgb 150 150 150"
    and pt: "p (Disabled, ButtonText) = Rgb 75 75 75"
    by (cases "parse_content default_palette ?content") simp_all
  have l: "load_color_palette lighter darker default_palette [''kde'' \<mapsto> ?content] ''kde'' =
      Inr (fallback lighter darker p)"
    using p by (simp add: load_color_palette_def)
  have b: "loaded_color (load_color_palette lighter darker default_palette
      [''kde'' \<mapsto> ?content] ''kde'') Disabled Button = Some (Rgb 150 150 150)"
    unfolding l by (simp add: loaded_color_def fallback_other pb)
  have t: "loaded_color (load_color_palette lighter darker default_palette
      [''kde'' \<mapsto> ?content] ''kde'') Disabled ButtonText = Some (Rgb 75 75 75)"
    unfolding l by (simp add: loaded_color_def fallback_other pt)
  have e: "apply_color_effect (Rgb 0 0 0) (Rgb 100 100 100) (Fin (1 / 2)) = Inr (Rgb 50 50 50)"
    "apply_color_effect (Rgb 0 0 0) (Rgb 150 150 150) (Fin (1 / 2)) = Inr (Rgb 75 75 75)"
    by code_simp+
  from d b t e show ?thesis by blast
qed

end
